theory Spec2Isabelle
  imports Main "HOL-Library.Multiset"
begin

section \<open>The cache database of \<open>src/index.ts\<close>\<close>

subsection \<open>Results and failures\<close>

text \<open>
  \<open>Result<T, E>\<close> is the tagged union \<open>Success<T> | Failure<E>\<close>. The four failure
  details of \<open>CacheDbInitFailure\<close> keep their fields \<open>dbParentDirectory\<close>, \<open>dbPath\<close> and
  \<open>query\<close>; the field \<open>failureDetail: unknown\<close> that holds the caught exception is left
  out, since no code of the repository reads it.
\<close>

datatype ('t, 'e) Result = Success 't | Failure 'e

datatype CacheDbFailureDetail =
    CacheDbPathFailure string
  | CacheDbConnectionFailure string
  | CacheDbQueryFailure string string
  | CacheDbResultSchemaFailure string

datatype CacheDbInitFailure = CacheDbInitFailure CacheDbFailureDetail

subsection \<open>Columns and introspected rows\<close>

datatype SqliteDataType = INTEGER | REAL | TEXT | BLOB

record SqliteColumn =
  name :: string
  type :: SqliteDataType
  nullable :: bool
  primaryKey :: bool

text \<open>
  A row of \<open>PRAGMA table_info\<close> as the driver hands it over (\<open>unknown\<close> to the type
  checker): the declared type is still a string, or null; \<open>notnull\<close> and \<open>pk\<close> are
  numbers. \<open>dflt_value\<close> is \<open>z.unknown()\<close> and never read, so it is not modelled.
\<close>

record RawRow =
  raw_cid :: int
  raw_name :: string
  raw_type :: "string option"
  raw_notnull :: int
  raw_pk :: int

text \<open>
  An element of \<open>SqliteSchema\<close>, the output type of \<open>sqliteSchemaSchema\<close>. The fields are
  \<open>cid\<close>, \<open>name\<close>, \<open>type\<close>, \<open>notnull\<close> and \<open>pk\<close> in the source; they carry the prefix
  \<open>row_\<close> here because \<open>SqliteColumn\<close> has fields of the same names.
\<close>

record SqliteSchemaRow =
  row_cid :: int
  row_name :: string
  row_type :: "SqliteDataType option"
  row_notnull :: bool
  row_pk :: int

text \<open>\<open>sqliteDataTypeSchema = z.enum(["INTEGER", "REAL", "TEXT", "BLOB"])\<close>.\<close>

definition sqliteDataTypeSchema :: "string \<Rightarrow> SqliteDataType option" where
  "sqliteDataTypeSchema s =
     (if s = ''INTEGER'' then Some INTEGER
      else if s = ''REAL'' then Some REAL
      else if s = ''TEXT'' then Some TEXT
      else if s = ''BLOB'' then Some BLOB
      else None)"

text \<open>
  One element of \<open>sqliteSchemaSchema\<close>: \<open>cid\<close> is \<open>z.number().gte(0)\<close>, \<open>type\<close> is the enum
  or null, \<open>notnull\<close> is \<open>z.coerce.boolean()\<close> (JavaScript's \<open>Boolean(n)\<close>: false exactly
  for \<open>0\<close>), \<open>pk\<close> stays a number. \<open>None\<close> is a failed parse.
\<close>

definition parseRow :: "RawRow \<Rightarrow> SqliteSchemaRow option" where
  "parseRow r =
     (if raw_cid r < 0 then None
      else case raw_type r of
        None \<Rightarrow>
          Some \<lparr>row_cid = raw_cid r, row_name = raw_name r, row_type = None,
                row_notnull = (raw_notnull r \<noteq> 0), row_pk = raw_pk r\<rparr>
      | Some s \<Rightarrow>
          (case sqliteDataTypeSchema s of
             None \<Rightarrow> None
           | Some t \<Rightarrow>
               Some \<lparr>row_cid = raw_cid r, row_name = raw_name r, row_type = Some t,
                     row_notnull = (raw_notnull r \<noteq> 0), row_pk = raw_pk r\<rparr>))"

text \<open>\<open>sqliteSchemaSchema.safeParse\<close>: the array parses when every element does.\<close>

fun safeParse :: "RawRow list \<Rightarrow> SqliteSchemaRow list option" where
  "safeParse [] = Some []"
| "safeParse (r # rs) =
     (case parseRow r of
        None \<Rightarrow> None
      | Some p \<Rightarrow> (case safeParse rs of None \<Rightarrow> None | Some ps \<Rightarrow> Some (p # ps)))"

subsection \<open>The expected schemas\<close>

text \<open>
  A \<open>ReadonlyMap<string, SqliteColumn>\<close> is an association list in insertion order:
  \<open>get\<close> is \<open>map_of\<close>, \<open>values()\<close> is \<open>map snd\<close>.
\<close>

type_synonym ColumnMap = "(string \<times> SqliteColumn) list"

definition fileSharesColumns :: ColumnMap where
  "fileSharesColumns =
    [(''fileShareId'',
        \<lparr>name = ''fileShareId'', type = TEXT, nullable = False, primaryKey = True\<rparr>),
     (''dataPlaneUri'',
        \<lparr>name = ''dataPlaneUri'', type = TEXT, nullable = False, primaryKey = True\<rparr>),
     (''resourceName'',
        \<lparr>name = ''resourceName'', type = TEXT, nullable = False, primaryKey = False\<rparr>),
     (''resourceType'',
        \<lparr>name = ''resourceType'', type = TEXT, nullable = False, primaryKey = False\<rparr>),
     (''resourceCreateDate'',
        \<lparr>name = ''resourceCreateDate'', type = INTEGER, nullable = False,
         primaryKey = False\<rparr>),
     (''fileShareName'',
        \<lparr>name = ''fileShareName'', type = TEXT, nullable = False, primaryKey = False\<rparr>),
     (''isSnapshot'',
        \<lparr>name = ''isSnapshot'', type = INTEGER, nullable = False, primaryKey = False\<rparr>),
     (''snapshotTime'',
        \<lparr>name = ''snapshotTime'', type = INTEGER, nullable = False, primaryKey = False\<rparr>)]"

definition fileSystemEntriesColumns :: ColumnMap where
  "fileSystemEntriesColumns =
    [(''fileShareId'',
        \<lparr>name = ''fileShareId'', type = TEXT, nullable = False, primaryKey = True\<rparr>),
     (''dataPlaneUri'',
        \<lparr>name = ''dataPlaneUri'', type = TEXT, nullable = False, primaryKey = True\<rparr>),
     (''path'',
        \<lparr>name = ''path'', type = TEXT, nullable = False, primaryKey = True\<rparr>),
     (''entryName'',
        \<lparr>name = ''entryName'', type = TEXT, nullable = False, primaryKey = False\<rparr>)]"

subsection \<open>\<open>DefaultCacheDb.columnsMatch\<close>\<close>

text \<open>
  The column built from one introspected row that has a declared type \<open>t\<close>:
  \<open>nullable: !rawColumn.notnull\<close>, \<open>primaryKey: Boolean(rawColumn.pk)\<close>.
\<close>

definition foundColumnOf :: "SqliteSchemaRow \<Rightarrow> SqliteDataType \<Rightarrow> SqliteColumn" where
  "foundColumnOf rawColumn t =
     \<lparr>name = row_name rawColumn, type = t, nullable = (\<not> row_notnull rawColumn),
      primaryKey = (row_pk rawColumn \<noteq> 0)\<rparr>"

text \<open>
  The first loop, over the introspected rows; \<open>foundColumns\<close> is the accumulator and
  \<open>None\<close> is \<open>return false\<close>. The third disjunct of the comparison is written as the
  source has it: both sides read \<open>expectedColumn.primaryKey\<close>.
\<close>

fun scanRows ::
  "ColumnMap \<Rightarrow> SqliteSchemaRow list \<Rightarrow> (string \<rightharpoonup> SqliteColumn) \<Rightarrow>
   (string \<rightharpoonup> SqliteColumn) option" where
  "scanRows expectedColumns [] foundColumns = Some foundColumns"
| "scanRows expectedColumns (rawColumn # rest) foundColumns =
     (case row_type rawColumn of
        None \<Rightarrow> None
      | Some t \<Rightarrow>
          (let foundColumn = foundColumnOf rawColumn t in
           case map_of expectedColumns (name foundColumn) of
             None \<Rightarrow>
               if \<not> nullable foundColumn then None
               else scanRows expectedColumns rest foundColumns
           | Some expectedColumn \<Rightarrow>
               if type expectedColumn \<noteq> type foundColumn \<or>
                  nullable expectedColumn \<noteq> nullable foundColumn \<or>
                  primaryKey expectedColumn \<noteq> primaryKey expectedColumn
               then None
               else scanRows expectedColumns rest
                      (foundColumns(name foundColumn \<mapsto> foundColumn))))"

text \<open>The second loop, over \<open>expectedColumns.values()\<close>.\<close>

fun checkExpected :: "SqliteColumn list \<Rightarrow> (string \<rightharpoonup> SqliteColumn) \<Rightarrow> bool" where
  "checkExpected [] foundColumns = True"
| "checkExpected (expectedColumn # rest) foundColumns =
     (case foundColumns (name expectedColumn) of
        None \<Rightarrow> False
      | Some foundColumn \<Rightarrow>
          if type expectedColumn \<noteq> type foundColumn \<or>
             nullable expectedColumn \<noteq> nullable foundColumn \<or>
             primaryKey expectedColumn \<noteq> primaryKey expectedColumn
          then False
          else checkExpected rest foundColumns)"

definition columnsMatch :: "ColumnMap \<Rightarrow> SqliteSchemaRow list \<Rightarrow> bool" where
  "columnsMatch expectedColumns sqliteSchema =
     (case scanRows expectedColumns sqliteSchema Map.empty of
        None \<Rightarrow> False
      | Some foundColumns \<Rightarrow> checkExpected (map snd expectedColumns) foundColumns)"

subsection \<open>Symmetric matching, as the specification words it\<close>

text \<open>
  The comparison of the specification, over the introspected columns \<open>(name, declared
  type, nullability, primary-key membership)\<close>: every actual column that the expected
  set does not recognise is nullable, and every expected column is present in the
  actual set with identical type, nullability and primary-key flag.
\<close>

definition symmetricMatch :: "ColumnMap \<Rightarrow> SqliteColumn list \<Rightarrow> bool" where
  "symmetricMatch expectedColumns actual =
     (list_all
        (\<lambda>a. case map_of expectedColumns (name a) of None \<Rightarrow> nullable a | Some e \<Rightarrow> True)
        actual \<and>
      list_all
        (\<lambda>e. list_ex
           (\<lambda>a. name a = name e \<and> type a = type e \<and> nullable a = nullable e \<and>
                primaryKey a = primaryKey e) actual)
        (map snd expectedColumns))"

text \<open>The introspected columns of a parsed schema (rows without a declared type have none).\<close>

fun introspected :: "SqliteSchemaRow list \<Rightarrow> SqliteColumn list" where
  "introspected [] = []"
| "introspected (r # rs) =
     (case row_type r of
        None \<Rightarrow> introspected rs
      | Some t \<Rightarrow> foundColumnOf r t # introspected rs)"

subsection \<open>\<open>DefaultCacheDb.buildCreateTableQuery\<close>\<close>

text \<open>The enum values are their own text in the template literal \<open>${column.type}\<close>.\<close>

definition typeName :: "SqliteDataType \<Rightarrow> string" where
  "typeName t =
     (case t of INTEGER \<Rightarrow> ''INTEGER'' | REAL \<Rightarrow> ''REAL'' | TEXT \<Rightarrow> ''TEXT''
      | BLOB \<Rightarrow> ''BLOB'')"

text \<open>The first loop: the text appended for the columns from position \<open>i\<close> on.\<close>

fun columnDefinitions :: "SqliteColumn list \<Rightarrow> nat \<Rightarrow> string" where
  "columnDefinitions [] i = []"
| \<open>columnDefinitions (column # rest) i =
     (if i > 0 then '', '' else []) @
     ''"'' @ name column @ ''" '' @ typeName (type column) @
     (if \<not> nullable column then '' NOT NULL'' else []) @
     columnDefinitions rest (i + 1)\<close>

text \<open>\<open>primaryKeys\<close>, as the first loop collects it.\<close>

definition primaryKeysOf :: "SqliteColumn list \<Rightarrow> string list" where
  "primaryKeysOf columns = map name (filter primaryKey columns)"

text \<open>The second loop: the quoted key names from position \<open>j\<close> on.\<close>

fun keyList :: "string list \<Rightarrow> nat \<Rightarrow> string" where
  "keyList [] j = []"
| \<open>keyList (k # rest) j =
     (if j > 0 then '', '' else []) @ ''"'' @ k @ ''"'' @ keyList rest (j + 1)\<close>

definition buildCreateTableQuery :: "string \<Rightarrow> ColumnMap \<Rightarrow> string" where
  \<open>buildCreateTableQuery tableName columns =
     (let primaryKeys = primaryKeysOf (map snd columns) in
      ''CREATE TABLE "'' @ tableName @ ''" ('' @
      columnDefinitions (map snd columns) 0 @
      (if length primaryKeys > 0 then '', PRIMARY KEY ('' else []) @
      keyList primaryKeys 0 @
      (if length primaryKeys > 0 then '')'' else []) @
      '') STRICT'')\<close>

subsection \<open>The database behind the connection\<close>

text \<open>
  \<open>bun:sqlite\<close> is outside the repository. What \<open>init\<close> needs of it is modelled here:
  a database gives each table name the rows that \<open>PRAGMA table_info\<close> reports for
  it, no row for a table that does not exist (a table has at least one column); a
  connection also records every statement it was asked to execute and a fault
  schedule (the statement with ordinal \<open>n\<close>, counted from \<open>0\<close>, throws when
  \<open>faults n\<close>). A statement that throws leaves the tables unchanged.
\<close>

record Connection =
  tables :: "string \<Rightarrow> RawRow list"
  executed :: "string list"
  faults :: "nat \<Rightarrow> bool"

text \<open>
  What \<open>PRAGMA table_info\<close> reports for a table created from the given columns: the
  ordinal of the column, its declared type, \<open>notnull\<close> as \<open>1\<close> or \<open>0\<close>, and in \<open>pk\<close> the
  one-based position of the column within the primary key (\<open>0\<close> outside it).
\<close>

fun tableInfo :: "SqliteColumn list \<Rightarrow> nat \<Rightarrow> nat \<Rightarrow> RawRow list" where
  "tableInfo [] i k = []"
| "tableInfo (c # cs) i k =
     \<lparr>raw_cid = int i, raw_name = name c, raw_type = Some (typeName (type c)),
      raw_notnull = (if nullable c then 0 else 1),
      raw_pk = (if primaryKey c then int (k + 1) else 0)\<rparr>
     # tableInfo cs (i + 1) (if primaryKey c then k + 1 else k)"

datatype Statement =
    JournalMode
  | TableInfo string
  | DropTableIfExists string
  | CreateTable string ColumnMap

text \<open>
  The statements the model understands are the ones \<open>init\<close> issues, over the two
  tables of the cache; any other text throws.
\<close>

definition statementOf :: "string \<Rightarrow> Statement option" where
  "statementOf q =
     (if q = ''PRAGMA journal_mode=WAL'' then Some JournalMode
      else if q = ''PRAGMA table_info(FileShares)'' then Some (TableInfo ''FileShares'')
      else if q = ''PRAGMA table_info(FileSystemEntries)''
        then Some (TableInfo ''FileSystemEntries'')
      else if q = ''DROP TABLE IF EXISTS FileShares''
        then Some (DropTableIfExists ''FileShares'')
      else if q = ''DROP TABLE IF EXISTS FileSystemEntries''
        then Some (DropTableIfExists ''FileSystemEntries'')
      else if q = buildCreateTableQuery ''FileShares'' fileSharesColumns
        then Some (CreateTable ''FileShares'' fileSharesColumns)
      else if q = buildCreateTableQuery ''FileSystemEntries'' fileSystemEntriesColumns
        then Some (CreateTable ''FileSystemEntries'' fileSystemEntriesColumns)
      else None)"

datatype 'a Attempt = Threw Connection | Done 'a Connection

text \<open>
  One statement on the connection. \<open>rows\<close> is what \<open>Statement.all()\<close> returns;
  \<open>Database.run\<close> discards it. Creating a table that exists throws.
\<close>

definition execute :: "string \<Rightarrow> Connection \<Rightarrow> (RawRow list) Attempt" where
  "execute q c =
     (let c' = c\<lparr>executed := executed c @ [q]\<rparr> in
      if faults c (length (executed c)) then Threw c'
      else case statementOf q of
        None \<Rightarrow> Threw c'
      | Some JournalMode \<Rightarrow> Done [] c'
      | Some (TableInfo t) \<Rightarrow> Done (tables c t) c'
      | Some (DropTableIfExists t) \<Rightarrow> Done [] (c'\<lparr>tables := (tables c)(t := [])\<rparr>)
      | Some (CreateTable t columns) \<Rightarrow>
          if tables c t \<noteq> [] then Threw c'
          else Done [] (c'\<lparr>tables := (tables c)(t := tableInfo (map snd columns) 0 0)\<rparr>))"

subsection \<open>\<open>DefaultCacheDb.init\<close>\<close>

text \<open>
  The surroundings of one call of \<open>init\<close>. \<open>FileSystem.mkdir\<close> comes from
  \<open>fs/promises\<close> and is called without \<open>await\<close>: the \<open>try\<close> around it sees a
  synchronous throw only, and a directory that cannot be created is a rejected
  promise that \<open>init\<close> never looks at. \<open>Path.dirname\<close> is a parameter.
\<close>

datatype MkdirOutcome = MkdirResolves | MkdirRejects | MkdirThrows

record World =
  dirname :: "string \<Rightarrow> string"
  mkdir :: MkdirOutcome
  openThrows :: bool
  database :: Connection

text \<open>
  An \<open>async\<close> function either returns its value or throws (its promise rejects).
\<close>

datatype 'a Outcome = Returns 'a | Throws string

type_synonym InitResult = "(unit, CacheDbInitFailure) Result"

definition queryFailure :: "string \<Rightarrow> string \<Rightarrow> InitResult" where
  "queryFailure dbPath query = Failure (CacheDbInitFailure (CacheDbQueryFailure dbPath query))"

text \<open>
  Lines 289 to 399: the \<open>FileShares\<close> table. \<open>Inl\<close> is an early \<open>return\<close> of a failure;
  the connection comes back in both cases.
\<close>

definition initFileShares :: "string \<Rightarrow> Connection \<Rightarrow> (InitResult \<times> Connection) + Connection"
  where
  "initFileShares dbPath connection =
     (let fsSchemaQuery = ''PRAGMA table_info(FileShares)'' in
      case execute fsSchemaQuery connection of
        Threw c \<Rightarrow> Inl (queryFailure dbPath fsSchemaQuery, c)
      | Done fsSchemaQueryResult c1 \<Rightarrow>
          (case safeParse fsSchemaQueryResult of
             None \<Rightarrow> Inl (Failure (CacheDbInitFailure (CacheDbResultSchemaFailure dbPath)), c1)
           | Some data \<Rightarrow>
               (let createFsTable =
                      (if length data = 0 then True
                       else \<not> columnsMatch fileSharesColumns data) in
                if createFsTable then
                  (let dropFsTableQuery = ''DROP TABLE IF EXISTS FileShares'' in
                   case execute dropFsTableQuery c1 of
                     Threw c \<Rightarrow> Inl (queryFailure dbPath dropFsTableQuery, c)
                   | Done r2 c2 \<Rightarrow>
                       (let dropEntriesTableQuery =
                              ''DROP TABLE IF EXISTS FileSystemEntries'' in
                        case execute dropEntriesTableQuery c2 of
                          Threw c \<Rightarrow> Inl (queryFailure dbPath dropFsTableQuery, c)
                        | Done r3 c3 \<Rightarrow>
                            (let createFsTableQuery =
                                   buildCreateTableQuery ''FileShares'' fileSharesColumns in
                             case execute createFsTableQuery c3 of
                               Threw c \<Rightarrow> Inl (queryFailure dbPath createFsTableQuery, c)
                             | Done r4 c4 \<Rightarrow> Inr c4)))
                else Inr c1)))"

text \<open>Lines 401 to 495: the \<open>FileSystemEntries\<close> table and the final \<open>return\<close>.\<close>

definition initFileSystemEntries :: "string \<Rightarrow> Connection \<Rightarrow> InitResult \<times> Connection" where
  "initFileSystemEntries dbPath connection =
     (let entriesSchemaQuery = ''PRAGMA table_info(FileSystemEntries)'' in
      case execute entriesSchemaQuery connection of
        Threw c \<Rightarrow> (queryFailure dbPath entriesSchemaQuery, c)
      | Done entriesSchemaQueryResult c1 \<Rightarrow>
          (case safeParse entriesSchemaQueryResult of
             None \<Rightarrow> (Failure (CacheDbInitFailure (CacheDbResultSchemaFailure dbPath)), c1)
           | Some data \<Rightarrow>
               (let createEntriesTable =
                      (if length data = 0 then True
                       else \<not> columnsMatch fileSystemEntriesColumns data) in
                if createEntriesTable then
                  (let dropEntriesTableQuery =
                         ''DROP TABLE IF EXISTS FileSystemEntries'' in
                   case execute dropEntriesTableQuery c1 of
                     Threw c \<Rightarrow> (queryFailure dbPath dropEntriesTableQuery, c)
                   | Done r2 c2 \<Rightarrow>
                       (let createEntriesTblQuery =
                              buildCreateTableQuery ''FileSystemEntries''
                                fileSystemEntriesColumns in
                        case execute createEntriesTblQuery c2 of
                          Threw c \<Rightarrow> (queryFailure dbPath createEntriesTblQuery, c)
                        | Done r3 c3 \<Rightarrow> (Success (), c3)))
                else (Success (), c1))))"

text \<open>
  \<open>init\<close> on an object whose field \<open>connection\<close> holds the first argument's value (\<open>None\<close>
  is \<open>null\<close>). It gives the outcome of the call and the field afterwards.
  \<open>this.connection.run("PRAGMA journal_mode=WAL")\<close> stands outside every \<open>try\<close>.
\<close>

definition init ::
  "string \<Rightarrow> Connection option \<Rightarrow> World \<Rightarrow> InitResult Outcome \<times> Connection option" where
  "init dbPath connection w =
     (let parentDirectory = dirname w dbPath in
      if mkdir w = MkdirThrows then
        (Returns (Failure (CacheDbInitFailure (CacheDbPathFailure parentDirectory))),
         connection)
      else if connection \<noteq> None then
        (Throws (''CacheDb has already been initialized (db path: '' @ dbPath @ '').''),
         connection)
      else if openThrows w then
        (Returns (Failure (CacheDbInitFailure (CacheDbConnectionFailure dbPath))), None)
      else
        (case execute ''PRAGMA journal_mode=WAL'' (database w) of
           Threw c \<Rightarrow> (Throws ''PRAGMA journal_mode=WAL'', Some c)
         | Done r0 c0 \<Rightarrow>
             (case initFileShares dbPath c0 of
                Inl (failure, c) \<Rightarrow> (Returns failure, Some c)
              | Inr c1 \<Rightarrow>
                  (case initFileSystemEntries dbPath c1 of
                     (result, c2) \<Rightarrow> (Returns result, Some c2)))))"

subsection \<open>The \<open>search\<close> command\<close>

text \<open>
  The option values as \<open>commander\<close> hands them to the action: every option is required
  or has a default, and every value is a string. The fields are the keys of
  \<open>searchArgsSchema\<close>, with the prefix \<open>arg_\<close> that keeps them apart from the script's
  variables of the same names.
\<close>

record RawArgs =
  arg_subscription :: string
  arg_resourceGroup :: string
  arg_storageAccount :: string
  arg_fileShare :: string
  arg_targetItem :: string
  arg_searchScope :: string
  arg_matchBehavior :: string

definition isLowerAlnum :: "char \<Rightarrow> bool" where
  "isLowerAlnum c = (c \<in> set ''abcdefghijklmnopqrstuvwxyz0123456789'')"

text \<open>\<open>/^[a-z0-9]{3,24}$/\<close>\<close>

definition storageAccountSchema :: "string \<Rightarrow> bool" where
  "storageAccountSchema s = (3 \<le> length s \<and> length s \<le> 24 \<and> list_all isLowerAlnum s)"

text \<open>
  \<open>/^([a-z]|[0-9])([a-z]|[0-9]|(-(?!-))){1,61}([a-z]|[0-9])$/\<close>: the middle part is one
  to sixty-one characters, each a lower-case letter, a digit, or a hyphen that no
  hyphen follows. The character after the middle part is the last one, which is no
  hyphen, so the look-ahead of a hyphen that ends the middle part holds.
\<close>

fun middleOk :: "string \<Rightarrow> bool" where
  "middleOk [] = True"
| "middleOk (c # cs) =
     ((isLowerAlnum c \<or>
       (c = CHR ''-'' \<and> (case cs of [] \<Rightarrow> True | d # ds \<Rightarrow> d \<noteq> CHR ''-''))) \<and>
      middleOk cs)"

definition fileShareNameSchema :: "string \<Rightarrow> bool" where
  "fileShareNameSchema s =
     (3 \<le> length s \<and> length s \<le> 63 \<and> isLowerAlnum (hd s) \<and> isLowerAlnum (last s) \<and>
      middleOk (butlast (tl s)))"

definition searchScopeSchema :: "string \<Rightarrow> bool" where
  "searchScopeSchema s = (s \<in> set [''Both'', ''FileShare'', ''FileShareSnapshots''])"

definition matchBehaviorSchema :: "string \<Rightarrow> bool" where
  "matchBehaviorSchema s = (s \<in> set [''End'', ''ScopeEnd'', ''Continue''])"

text \<open>
  \<open>searchArgsSchema.safeParse(args).success\<close>. The check behind \<open>z.string().uuid()\<close>
  belongs to the \<open>zod\<close> library and is the parameter \<open>uuid\<close>. \<open>targetItem\<close> is
  \<open>z.string()\<close>, which every string passes.
\<close>

definition searchArgsSchema :: "(string \<Rightarrow> bool) \<Rightarrow> RawArgs \<Rightarrow> bool" where
  "searchArgsSchema uuid args =
     (uuid (arg_subscription args) \<and>
      1 \<le> length (arg_resourceGroup args) \<and> length (arg_resourceGroup args) \<le> 90 \<and>
      storageAccountSchema (arg_storageAccount args) \<and>
      fileShareNameSchema (arg_fileShare args) \<and>
      True \<and>
      searchScopeSchema (arg_searchScope args) \<and>
      matchBehaviorSchema (arg_matchBehavior args))"

text \<open>
  A stand-in for the library's check, used where a concrete one is needed: the
  8-4-4-4-12 shape of hexadecimal digits.
\<close>

definition uuidShape :: "string \<Rightarrow> bool" where
  "uuidShape s =
     (length s = 36 \<and>
      list_all (\<lambda>i. s ! i = CHR ''-'') [8, 13, 18, 23] \<and>
      list_all (\<lambda>i. i \<in> set [8, 13, 18, 23] \<or> s ! i \<in> set ''0123456789abcdefABCDEF'')
        [0..<36])"

text \<open>
  The action of the command: \<open>Exit 1\<close> is \<open>console.error\<close> followed by
  \<open>process.exit(1)\<close>, \<open>Uncaught\<close> an exception that leaves the action. The second
  component is the connection the run opened, \<open>None\<close> when it opened none.
\<close>

datatype ActionOutcome = Exit nat | Finished | Uncaught string

definition action ::
  "(string \<Rightarrow> bool) \<Rightarrow> string \<Rightarrow> RawArgs \<Rightarrow> World \<Rightarrow> ActionOutcome \<times> Connection option"
  where
  "action uuid dbPath args w =
     (if \<not> searchArgsSchema uuid args then (Exit 1, None)
      else case init dbPath None w of
        (Returns (Failure e), c) \<Rightarrow> (Exit 1, c)
      | (Returns (Success u), c) \<Rightarrow> (Finished, c)
      | (Throws m, c) \<Rightarrow> (Uncaught m, c))"

section \<open>The script \<open>recursiveSearch.ps1\<close>\<close>

subsection \<open>Parameters and the storage account\<close>

text \<open>
  The parameters of the script after binding: \<open>ValidateSet\<close> has been applied, so the
  scope and the behaviour are one of their three values each.
\<close>

datatype SearchScope = FileShare | FileShareSnapshots | Both

datatype MatchBehavior = End | ScopeEnd | Continue

record Params =
  ResourceGroupName :: string
  StorageAccountName :: string
  FileShareName :: string
  TargetItemName :: string
  SearchScope :: SearchScope
  MatchBehavior :: MatchBehavior

text \<open>
  PowerShell's \<open>-eq\<close> on strings ignores case. The model folds the ASCII letters and
  compares every other character as it is.
\<close>

definition lowerChar :: "char \<Rightarrow> char" where
  "lowerChar c =
     (case map_of (zip ''ABCDEFGHIJKLMNOPQRSTUVWXYZ'' ''abcdefghijklmnopqrstuvwxyz'') c of
        Some l \<Rightarrow> l
      | None \<Rightarrow> c)"

definition psEq :: "string \<Rightarrow> string \<Rightarrow> bool" where
  "psEq a b = (map lowerChar a = map lowerChar b)"

text \<open>
  An entry of a directory listing (\<open>ShareFileItem\<close>: \<open>Name\<close>, \<open>IsDirectory\<close>). The third
  field is not a property of the item: it is the state of the share, the listing that
  \<open>GetFilesAndDirectories\<close> returns for this entry when it is a directory. A share
  is a finite tree, and every listing succeeds.
\<close>

datatype ShareFileItem =
  ShareFileItem (ItemName: string) (IsDirectory: bool) (Listing: "ShareFileItem list")

datatype Uri = Uri (Authority: string) (UriPath: string) (UriQuery: string)

text \<open>
  A share or share snapshot as \<open>Get-AzStorageShare\<close> returns it. \<open>ShareClientUri\<close> is
  \<open>ShareClient.Uri\<close>; \<open>SnapshotTime\<close> is a number of ticks, \<open>None\<close> for \<open>$null\<close>; \<open>Root\<close>
  is the listing of the root directory.
\<close>

record Share =
  Name :: string
  IsDeleted :: bool
  IsSnapshot :: bool
  SnapshotTime :: "int option"
  ShareClientUri :: Uri
  Root :: "ShareFileItem list"

text \<open>
  A storage account: \<open>AllowSharedKeyAccess\<close> is a nullable boolean; \<open>sa_Keys\<close> is what
  \<open>Get-AzStorageAccountKey\<close> returns as pairs of \<open>KeyName\<close> and \<open>Value\<close>, \<open>None\<close> when it
  throws; \<open>sa_Shares\<close> are the shares and snapshots of the account.
\<close>

record StorageAccount =
  sa_StorageAccountName :: string
  sa_AllowSharedKeyAccess :: "bool option"
  sa_Keys :: "(string \<times> string) list option"
  sa_Shares :: "Share list"

text \<open>
  The subscription the script runs against: \<open>Get-AzContext\<close> (the account id, \<open>None\<close>
  for \<open>$null\<close>), the names \<open>Get-AzResourceGroup\<close> lists, and the storage accounts of a
  resource group.
\<close>

record Azure =
  Context :: "string option"
  ResourceGroups :: "string list"
  StorageAccounts :: "string \<Rightarrow> StorageAccount list"

text \<open>The terminating errors (\<open>Write-Error -ErrorAction Stop\<close>), in script order.\<close>

datatype ScriptError =
    NotConnected
  | ResourceGroupNotFound
  | StorageAccountNotFound
  | SharedKeyDisabled
  | SharedKeyUnavailable
  | FileShareNotFound
  | NoSnapshots

subsection \<open>The scopes to search\<close>

text \<open>Comparison of \<open>SnapshotTime\<close> values: \<open>$null\<close> sorts below every time.\<close>

fun snapshotTimeLess :: "int option \<Rightarrow> int option \<Rightarrow> bool" where
  "snapshotTimeLess None None = False"
| "snapshotTimeLess None (Some b) = True"
| "snapshotTimeLess (Some a) None = False"
| "snapshotTimeLess (Some a) (Some b) = (a < b)"

text \<open>
  \<open>Sort-Object -Property SnapshotTime -Descending\<close>, as an insertion sort that keeps the
  input order of equal keys.
\<close>

fun insertDescending :: "Share \<Rightarrow> Share list \<Rightarrow> Share list" where
  "insertDescending x [] = [x]"
| "insertDescending x (y # ys) =
     (if snapshotTimeLess (SnapshotTime x) (SnapshotTime y) then y # insertDescending x ys
      else x # y # ys)"

fun sortDescending :: "Share list \<Rightarrow> Share list" where
  "sortDescending [] = []"
| "sortDescending (x # xs) = insertDescending x (sortDescending xs)"

text \<open>
  Lines 196 to 237. \<open>-Prefix\<close> keeps the shares whose name starts with the requested
  one. A PowerShell variable that receives no object is \<open>$null\<close>, one object is the
  object and several are an array; a list covers the three, \<open>[]\<close> being \<open>$null\<close>.
\<close>

definition targetScopesOf :: "Params \<Rightarrow> Share list \<Rightarrow> ScriptError + Share list" where
  "targetScopesOf p shares =
     (let fileSharesMatchingName =
            filter (\<lambda>s. psEq (Name s) (FileShareName p) \<and> \<not> IsDeleted s)
              (filter (\<lambda>s. take (length (FileShareName p)) (Name s) = FileShareName p) shares);
          fileShare = filter (\<lambda>s. \<not> IsSnapshot s) fileSharesMatchingName
      in
      if fileShare = [] then Inl FileShareNotFound
      else
        (let targetScopes =
               (if SearchScope p = FileShare \<or> SearchScope p = Both then [] @ fileShare
                else [])
         in
         if SearchScope p = FileShareSnapshots \<or> SearchScope p = Both then
           (let fileShareSnapshots =
                  sortDescending (filter (\<lambda>s. IsSnapshot s) fileSharesMatchingName)
            in
            if SearchScope p = FileShareSnapshots \<and> fileShareSnapshots = []
            then Inl NoSnapshots
            else if fileShareSnapshots \<noteq> [] then Inr (targetScopes @ fileShareSnapshots)
            else Inr targetScopes)
         else Inr targetScopes))"

subsection \<open>The search\<close>

datatype StorageSharedKeyCredential =
  StorageSharedKeyCredential (AccountName: string) (AccountKey: string)

text \<open>
  The object written to the output: \<open>ResourceGroupName\<close>, \<open>StorageAccountName\<close>,
  \<open>FileShareName\<close>, \<open>SnapshotTime\<close> and \<open>Path\<close>.
\<close>

datatype MatchObject =
  MatchObject string string string (MatchSnapshotTime: "int option") (MatchPath: string)

text \<open>
  What a run does, in order: \<open>ScopeStarted\<close> is the \<open>Write-Verbose\<close> at the head of the
  scope loop; \<open>Enqueued\<close> is one \<open>$queue.Enqueue\<close>; \<open>DirectoryListed\<close> is one
  \<open>GetFilesAndDirectories\<close> call, with the path taken from the queue, the URI of the
  directory client and its credential; \<open>ItemSeen\<close> is the \<open>Write-Debug\<close> of an
  enumerated item; \<open>Output\<close> is \<open>Write-Output\<close>.
\<close>

datatype Event =
    ScopeStarted Uri
  | Enqueued string
  | DirectoryListed string Uri StorageSharedKeyCredential
  | ItemSeen string
  | Output MatchObject

text \<open>
  The queue holds the paths the source enqueues; next to each path stands the listing
  the share returns for it.
\<close>

type_synonym Queue = "(string \<times> ShareFileItem list) list"

definition matchObject :: "Params \<Rightarrow> Share \<Rightarrow> string \<Rightarrow> MatchObject" where
  "matchObject p targetScope path =
     MatchObject (ResourceGroupName p) (StorageAccountName p) (FileShareName p)
       (SnapshotTime targetScope) path"

text \<open>Lines 294 to 296: the queue afterwards, and the event.\<close>

definition enqueueDirectory :: "ShareFileItem \<Rightarrow> string \<Rightarrow> Queue \<Rightarrow> Queue" where
  "enqueueDirectory dirItem path queue =
     (if IsDirectory dirItem then queue @ [(path @ ''/'', Listing dirItem)] else queue)"

definition enqueueEvents :: "ShareFileItem \<Rightarrow> string \<Rightarrow> Event list" where
  "enqueueEvents dirItem path = (if IsDirectory dirItem then [Enqueued (path @ ''/'')] else [])"

text \<open>
  Lines 271 to 297, \<open>foreach ($dirItem in $dirEnum)\<close>: the events, the queue and
  \<open>$shouldBreak\<close> afterwards. Under \<open>End\<close> a match clears the queue and leaves the loop.
\<close>

fun enumerateItems ::
  "Params \<Rightarrow> Share \<Rightarrow> string \<Rightarrow> ShareFileItem list \<Rightarrow> Queue \<Rightarrow> bool \<Rightarrow>
   Event list \<times> Queue \<times> bool" where
  "enumerateItems p targetScope dirPath [] queue shouldBreak = ([], queue, shouldBreak)"
| "enumerateItems p targetScope dirPath (dirItem # rest) queue shouldBreak =
     (let path = dirPath @ ItemName dirItem in
      if psEq (ItemName dirItem) (TargetItemName p) then
        (let obj = matchObject p targetScope path in
         if MatchBehavior p = End then ([ItemSeen path, Output obj], [], True)
         else
           (case enumerateItems p targetScope dirPath rest
                   (enqueueDirectory dirItem path queue)
                   (if MatchBehavior p = ScopeEnd then True else shouldBreak) of
              (events, queue', shouldBreak') \<Rightarrow>
                (ItemSeen path # Output obj # enqueueEvents dirItem path @ events, queue',
                 shouldBreak')))
      else
        (case enumerateItems p targetScope dirPath rest
                (enqueueDirectory dirItem path queue) shouldBreak of
           (events, queue', shouldBreak') \<Rightarrow>
             (ItemSeen path # enqueueEvents dirItem path @ events, queue', shouldBreak')))"

text \<open>The entries below a listing, counted; the queue's weight bounds the work left.\<close>

fun weight :: "ShareFileItem \<Rightarrow> nat" where
  "weight (ShareFileItem n d items) = 1 + sum_list (map weight items)"

definition queueWeight :: "Queue \<Rightarrow> nat" where
  "queueWeight queue = sum_list (map (\<lambda>(path, items). 1 + sum_list (map weight items)) queue)"

lemma queueWeight_enqueueDirectory:
  "queueWeight (enqueueDirectory dirItem path queue) \<le> queueWeight queue + weight dirItem"
  by (cases dirItem) (simp add: enqueueDirectory_def queueWeight_def)

lemma queueWeight_enumerateItems:
  "enumerateItems p targetScope dirPath items queue shouldBreak = (events, queue', shouldBreak')
   \<Longrightarrow> queueWeight queue' \<le> queueWeight queue + sum_list (map weight items)"
proof (induction items arbitrary: queue shouldBreak events queue' shouldBreak')
  case Nil
  then show ?case by simp
next
  case (Cons dirItem rest)
  let ?q = "enqueueDirectory dirItem (dirPath @ ItemName dirItem) queue"
  have step: "queueWeight ?q \<le> queueWeight queue + weight dirItem"
    by (rule queueWeight_enqueueDirectory)
  show ?case
  proof (cases "psEq (ItemName dirItem) (TargetItemName p) \<and> MatchBehavior p = End")
    case True
    with Cons.prems have "queue' = []" by (simp add: Let_def)
    then show ?thesis by (simp add: queueWeight_def)
  next
    case False
    then obtain sb ev where
      "enumerateItems p targetScope dirPath rest ?q sb = (ev, queue', shouldBreak')"
      using Cons.prems by (auto simp: Let_def split: if_splits prod.splits)
    from Cons.IH [OF this] step show ?thesis by simp
  qed
qed

definition appendPath :: "Uri \<Rightarrow> string \<Rightarrow> Uri" where
  "appendPath endpointUri dirPath =
     Uri (Authority endpointUri) (UriPath endpointUri @ dirPath) (UriQuery endpointUri)"

text \<open>
  Lines 254 to 298, \<open>while ($queue.Count -gt 0)\<close>: the events of the rest of the scope
  and \<open>$shouldBreak\<close> at its end.
\<close>

function processQueue ::
  "Params \<Rightarrow> Share \<Rightarrow> StorageSharedKeyCredential \<Rightarrow> Queue \<Rightarrow> bool \<Rightarrow> Event list \<times> bool"
  where
  "processQueue p targetScope sharedKeyCred [] shouldBreak = ([], shouldBreak)"
| "processQueue p targetScope sharedKeyCred ((dirPath, dirEnum) # queue) shouldBreak =
     (let currentUri = appendPath (ShareClientUri targetScope) dirPath in
      case enumerateItems p targetScope dirPath dirEnum queue shouldBreak of
        (events, queue', shouldBreak') \<Rightarrow>
          (case processQueue p targetScope sharedKeyCred queue' shouldBreak' of
             (later, shouldBreak'') \<Rightarrow>
               (DirectoryListed dirPath currentUri sharedKeyCred # events @ later,
                shouldBreak'')))"
  by pat_completeness auto
termination
proof (relation "measure (\<lambda>(p, targetScope, sharedKeyCred, queue, shouldBreak). queueWeight queue)")
  show "wf (measure (\<lambda>(p, targetScope, sharedKeyCred, queue, shouldBreak). queueWeight queue))"
    by simp
next
  fix p targetScope sharedKeyCred dirPath dirEnum queue shouldBreak currentUri x events y
    queue' shouldBreak'
  assume "(events, y) = enumerateItems p targetScope dirPath dirEnum queue shouldBreak"
    and "(queue', shouldBreak') = y"
  then have "enumerateItems p targetScope dirPath dirEnum queue shouldBreak
      = (events, queue', shouldBreak')"
    by simp
  from queueWeight_enumerateItems [OF this]
  show "((p, targetScope, sharedKeyCred, queue', shouldBreak'),
         (p, targetScope, sharedKeyCred, (dirPath, dirEnum) # queue, shouldBreak))
        \<in> measure (\<lambda>(p, targetScope, sharedKeyCred, queue, shouldBreak). queueWeight queue)"
    by (simp add: queueWeight_def)
qed

declare processQueue.simps [simp del]

text \<open>Lines 243 to 303, \<open>foreach ($targetScope in $targetScopes)\<close>.\<close>

fun searchScopes :: "Params \<Rightarrow> StorageSharedKeyCredential \<Rightarrow> Share list \<Rightarrow> Event list" where
  "searchScopes p sharedKeyCred [] = []"
| "searchScopes p sharedKeyCred (targetScope # rest) =
     (let endpointUri = ShareClientUri targetScope in
      case processQueue p targetScope sharedKeyCred [(''/'', Root targetScope)] False of
        (events, shouldBreak) \<Rightarrow>
          ScopeStarted endpointUri # Enqueued ''/'' # events @
          (if shouldBreak then [] else searchScopes p sharedKeyCred rest))"

text \<open>
  The script from its first line: the checks of lines 113 to 212, the scopes, the
  credential of line 241 and the search. A name that several resource groups or
  accounts answer to is taken to be the first of them.
\<close>

definition recursiveSearch :: "Azure \<Rightarrow> Params \<Rightarrow> ScriptError + Event list" where
  "recursiveSearch azure p =
     (case Context azure of
        None \<Rightarrow> Inl NotConnected
      | Some account \<Rightarrow>
          (case find (\<lambda>g. psEq g (ResourceGroupName p)) (ResourceGroups azure) of
             None \<Rightarrow> Inl ResourceGroupNotFound
           | Some resourceGroup \<Rightarrow>
               (case find (\<lambda>a. psEq (sa_StorageAccountName a) (StorageAccountName p))
                       (StorageAccounts azure (ResourceGroupName p)) of
                  None \<Rightarrow> Inl StorageAccountNotFound
                | Some storageAccount \<Rightarrow>
                    if sa_AllowSharedKeyAccess storageAccount \<noteq> Some True
                    then Inl SharedKeyDisabled
                    else
                      (case sa_Keys storageAccount of
                         None \<Rightarrow> Inl SharedKeyUnavailable
                       | Some keys \<Rightarrow>
                           (case find (\<lambda>k. psEq (fst k) ''key1'') keys of
                              None \<Rightarrow> Inl SharedKeyUnavailable
                            | Some k \<Rightarrow>
                                (let key = snd k in
                                 case targetScopesOf p (sa_Shares storageAccount) of
                                   Inl e \<Rightarrow> Inl e
                                 | Inr targetScopes \<Rightarrow>
                                     (let sharedKeyCred =
                                            StorageSharedKeyCredential ''wgriesmfsressa2'' key
                                      in Inr (searchScopes p sharedKeyCred targetScopes))))))))"

section \<open>What a run shows, and what the specification asks of it\<close>

subsection \<open>Reading a run\<close>

text \<open>
  The objects written to the output, the scopes started, the credentials of the
  listing calls and the paths of the enumerated items, each in the order of the run.
\<close>

fun outputsOf :: "Event list \<Rightarrow> MatchObject list" where
  "outputsOf [] = []"
| "outputsOf (Output obj # es) = obj # outputsOf es"
| "outputsOf (e # es) = outputsOf es"

fun scopesStarted :: "Event list \<Rightarrow> Uri list" where
  "scopesStarted [] = []"
| "scopesStarted (ScopeStarted u # es) = u # scopesStarted es"
| "scopesStarted (e # es) = scopesStarted es"

fun credentialsOf :: "Event list \<Rightarrow> StorageSharedKeyCredential list" where
  "credentialsOf [] = []"
| "credentialsOf (DirectoryListed dirPath uri cred # es) = cred # credentialsOf es"
| "credentialsOf (e # es) = credentialsOf es"

fun seenPaths :: "Event list \<Rightarrow> string list" where
  "seenPaths [] = []"
| "seenPaths (ItemSeen path # es) = path # seenPaths es"
| "seenPaths (e # es) = seenPaths es"

text \<open>A run that ends at its only match.\<close>

definition endsAtMatch :: "Event list \<Rightarrow> bool" where
  "endsAtMatch es = (\<exists>pre obj. es = pre @ [Output obj] \<and> outputsOf pre = [])"

subsection \<open>The share as a tree\<close>

text \<open>\<open>$dirItem.Name -eq $TargetItemName\<close>.\<close>

definition isMatch :: "Params \<Rightarrow> ShareFileItem \<Rightarrow> bool" where
  "isMatch p dirItem = psEq (ItemName dirItem) (TargetItemName p)"

text \<open>
  Every entry of a scope whose name equals the target, with its path: the matches
  anywhere in the scope.
\<close>

fun itemMatches :: "Params \<Rightarrow> Share \<Rightarrow> string \<Rightarrow> ShareFileItem \<Rightarrow> MatchObject list" where
  "itemMatches p targetScope dirPath (ShareFileItem n d items) =
     (if psEq n (TargetItemName p) then [matchObject p targetScope (dirPath @ n)] else []) @
     (if d then concat (map (itemMatches p targetScope (dirPath @ n @ ''/'')) items) else [])"

definition scopeMatches :: "Params \<Rightarrow> Share \<Rightarrow> MatchObject list" where
  "scopeMatches p targetScope = concat (map (itemMatches p targetScope ''/'') (Root targetScope))"

text \<open>
  The absolute path of every entry below a directory: the parent's path, a slash and
  the entry's name. An entry \<open>foo\<close> of the root is \<open>/foo\<close>, its entries are
  \<open>/foo/<name>\<close>.
\<close>

fun nodePaths :: "string \<Rightarrow> ShareFileItem \<Rightarrow> string list" where
  "nodePaths parent (ShareFileItem n d items) =
     (parent @ ''/'' @ n) #
     (if d then concat (map (nodePaths (parent @ ''/'' @ n)) items) else [])"

definition sharePaths :: "Share \<Rightarrow> string list" where
  "sharePaths targetScope = concat (map (nodePaths []) (Root targetScope))"

text \<open>
  What one enumerated item contributes where the loop is not left: its debug line, its
  output when it matches, its enqueueing when it is a directory; and the queue
  entries of the directories of a listing.
\<close>

definition seenEvents :: "Params \<Rightarrow> Share \<Rightarrow> string \<Rightarrow> ShareFileItem \<Rightarrow> Event list" where
  "seenEvents p targetScope dirPath dirItem =
     ItemSeen (dirPath @ ItemName dirItem) #
     (if isMatch p dirItem then [Output (matchObject p targetScope (dirPath @ ItemName dirItem))]
      else []) @
     enqueueEvents dirItem (dirPath @ ItemName dirItem)"

definition subdirectories :: "string \<Rightarrow> ShareFileItem list \<Rightarrow> Queue" where
  "subdirectories dirPath items =
     map (\<lambda>i. (dirPath @ ItemName i @ ''/'', Listing i)) (filter IsDirectory items)"

text \<open>
  Everything a complete traversal of an entry, and of a queued directory, does, in
  depth-first order. The breadth-first run is compared with it up to order.
\<close>

fun itemEvents ::
  "Params \<Rightarrow> Share \<Rightarrow> StorageSharedKeyCredential \<Rightarrow> string \<Rightarrow> ShareFileItem \<Rightarrow> Event list" where
  "itemEvents p targetScope cred dirPath (ShareFileItem n d items) =
     ItemSeen (dirPath @ n) #
     (if psEq n (TargetItemName p) then [Output (matchObject p targetScope (dirPath @ n))] else []) @
     (if d then
        Enqueued (dirPath @ n @ ''/'') #
        DirectoryListed (dirPath @ n @ ''/'')
          (appendPath (ShareClientUri targetScope) (dirPath @ n @ ''/'')) cred #
        concat (map (itemEvents p targetScope cred (dirPath @ n @ ''/'')) items)
      else [])"

definition directoryEvents ::
  "Params \<Rightarrow> Share \<Rightarrow> StorageSharedKeyCredential \<Rightarrow> string \<times> ShareFileItem list \<Rightarrow> Event list" where
  "directoryEvents p targetScope cred entry =
     DirectoryListed (fst entry) (appendPath (ShareClientUri targetScope) (fst entry)) cred #
     concat (map (itemEvents p targetScope cred (fst entry)) (snd entry))"

subsection \<open>Well-formed names and paths\<close>

text \<open>
  A name of a file or directory is not empty and holds no slash. A path is rooted when
  it starts with a slash and no two slashes are adjacent, so that exactly one slash
  leads it; a directory path also ends with a slash.
\<close>

definition validName :: "string \<Rightarrow> bool" where
  "validName n = (n \<noteq> [] \<and> CHR ''/'' \<notin> set n)"

fun wellNamed :: "ShareFileItem \<Rightarrow> bool" where
  "wellNamed (ShareFileItem n d items) = (validName n \<and> list_all wellNamed items)"

fun noDoubleSlash :: "string \<Rightarrow> bool" where
  "noDoubleSlash (a # b # rest) =
     (\<not> (a = CHR ''/'' \<and> b = CHR ''/'') \<and> noDoubleSlash (b # rest))"
| "noDoubleSlash [a] = True"
| "noDoubleSlash [] = True"

definition rooted :: "string \<Rightarrow> bool" where
  "rooted path = (take 1 path = ''/'' \<and> noDoubleSlash path)"

definition directoryPath :: "string \<Rightarrow> bool" where
  "directoryPath path = (rooted path \<and> last path = CHR ''/'')"

fun eventClean :: "Event \<Rightarrow> bool" where
  "eventClean (ScopeStarted u) = True"
| "eventClean (Enqueued path) = directoryPath path"
| "eventClean (DirectoryListed path u c) = directoryPath path"
| "eventClean (ItemSeen path) = rooted path"
| "eventClean (Output obj) = rooted (MatchPath obj)"

subsection \<open>Snapshot order\<close>

text \<open>Each scope has a strictly later \<open>SnapshotTime\<close> than every scope after it.\<close>

definition strictlyDescending :: "Share list \<Rightarrow> bool" where
  "strictlyDescending scopes =
     sorted_wrt (\<lambda>a b. snapshotTimeLess (SnapshotTime b) (SnapshotTime a)) scopes"

subsection \<open>Schema comparison without the key\<close>

text \<open>
  Symmetric matching on names, types and nullability alone: the specification's
  comparison with the primary-key flag left out.
\<close>

definition matchIgnoringKey :: "ColumnMap \<Rightarrow> SqliteColumn list \<Rightarrow> bool" where
  "matchIgnoringKey expectedColumns actual =
     (list_all
        (\<lambda>a. case map_of expectedColumns (name a) of None \<Rightarrow> nullable a | Some e \<Rightarrow> True)
        actual \<and>
      list_all
        (\<lambda>e. list_ex (\<lambda>a. name a = name e \<and> type a = type e \<and> nullable a = nullable e) actual)
        (map snd expectedColumns))"

text \<open>
  The statements of a run of \<open>init\<close> that finds the \<open>FileShares\<close> table dirty, in order.
\<close>

definition reconcileStatements :: "string list" where
  "reconcileStatements =
     [''PRAGMA journal_mode=WAL'',
      ''PRAGMA table_info(FileShares)'',
      ''DROP TABLE IF EXISTS FileShares'',
      ''DROP TABLE IF EXISTS FileSystemEntries'',
      buildCreateTableQuery ''FileShares'' fileSharesColumns,
      ''PRAGMA table_info(FileSystemEntries)'',
      ''DROP TABLE IF EXISTS FileSystemEntries'',
      buildCreateTableQuery ''FileSystemEntries'' fileSystemEntriesColumns]"

section \<open>Example inputs\<close>

subsection \<open>Cache databases\<close>

text \<open>
  A \<open>FileShares\<close> table with the eight expected columns, their types and \<open>NOT NULL\<close>,
  declared without a \<open>PRIMARY KEY\<close> clause: \<open>pk\<close> is \<open>0\<close> in every row.
\<close>

definition keylessFileShares :: "SqliteSchemaRow list" where
  "keylessFileShares =
     map (\<lambda>(i, n, t).
            \<lparr>row_cid = i, row_name = n, row_type = Some t, row_notnull = True, row_pk = 0\<rparr>)
       [(0, ''fileShareId'', TEXT), (1, ''dataPlaneUri'', TEXT),
        (2, ''resourceName'', TEXT), (3, ''resourceType'', TEXT),
        (4, ''resourceCreateDate'', INTEGER), (5, ''fileShareName'', TEXT),
        (6, ''isSnapshot'', INTEGER), (7, ''snapshotTime'', INTEGER)]"

text \<open>A connection on which no statement throws, and an empty database behind it.\<close>

definition noFaults :: "nat \<Rightarrow> bool" where
  "noFaults n = False"

definition freshWorld :: World where
  "freshWorld =
     \<lparr>dirname = (\<lambda>path. ''.''), mkdir = MkdirResolves, openThrows = False,
      database = \<lparr>tables = (\<lambda>t. []), executed = [], faults = noFaults\<rparr>\<rparr>"

text \<open>
  An empty database on which the statement with the given ordinal throws. \<open>init\<close>
  issues \<open>PRAGMA journal_mode=WAL\<close> as statement \<open>0\<close> and, on an empty database, the
  drop of \<open>FileSystemEntries\<close> as statement \<open>3\<close>.
\<close>

definition failingAt :: "nat \<Rightarrow> World" where
  "failingAt k =
     \<lparr>dirname = (\<lambda>path. ''.''), mkdir = MkdirResolves, openThrows = False,
      database = \<lparr>tables = (\<lambda>t. []), executed = [], faults = (\<lambda>n. n = k)\<rparr>\<rparr>"

text \<open>A database that holds the given tables.\<close>

definition withTables :: "(string \<times> RawRow list) list \<Rightarrow> World" where
  "withTables ts =
     freshWorld\<lparr>database := (database freshWorld)
       \<lparr>tables := (\<lambda>t. case map_of ts t of None \<Rightarrow> [] | Some rows \<Rightarrow> rows)\<rparr>\<rparr>"

text \<open>
  A cache written by a layout that had no \<open>snapshotTime\<close> column: \<open>FileShares\<close> lacks the
  last expected column, \<open>FileSystemEntries\<close> is as expected. \<open>staleRows\<close> is what its
  \<open>FileShares\<close> rows parse to.
\<close>

definition staleFileShares :: "RawRow list" where
  "staleFileShares = tableInfo (map snd (butlast fileSharesColumns)) 0 0"

definition staleWorld :: World where
  "staleWorld =
     withTables [(''FileShares'', staleFileShares),
                 (''FileSystemEntries'', tableInfo (map snd fileSystemEntriesColumns) 0 0)]"

definition staleRows :: "SqliteSchemaRow list" where
  "staleRows =
     map (\<lambda>(i, n, t, k).
            \<lparr>row_cid = i, row_name = n, row_type = Some t, row_notnull = True, row_pk = k\<rparr>)
       [(0, ''fileShareId'', TEXT, 1), (1, ''dataPlaneUri'', TEXT, 2),
        (2, ''resourceName'', TEXT, 0), (3, ''resourceType'', TEXT, 0),
        (4, ''resourceCreateDate'', INTEGER, 0), (5, ''fileShareName'', TEXT, 0),
        (6, ''isSnapshot'', INTEGER, 0)]"

text \<open>
  A \<open>FileShares\<close> table that is not \<open>STRICT\<close>, with a column declared \<open>VARCHAR(36)\<close>.
\<close>

definition legacyWorld :: World where
  "legacyWorld =
     withTables [(''FileShares'',
       [\<lparr>raw_cid = 0, raw_name = ''fileShareId'', raw_type = Some ''VARCHAR(36)'',
         raw_notnull = 1, raw_pk = 1\<rparr>])]"

subsection \<open>Requests\<close>

text \<open>A well-formed request, but for its empty target item name.\<close>

definition emptyTarget :: RawArgs where
  "emptyTarget =
     \<lparr>arg_subscription = ''1d16f9b3-bbe3-48d4-930a-27a74dca003b'',
      arg_resourceGroup = ''testrg'', arg_storageAccount = ''testsa'',
      arg_fileShare = ''testshare'', arg_targetItem = [],
      arg_searchScope = ''Both'', arg_matchBehavior = ''ScopeEnd''\<rparr>"

subsection \<open>Shares\<close>

definition searchFor :: "MatchBehavior \<Rightarrow> Params" where
  "searchFor behaviour =
     \<lparr>ResourceGroupName = ''testrg'', StorageAccountName = ''testsa'',
      FileShareName = ''testshare'', TargetItemName = ''x'', SearchScope = Both,
      MatchBehavior = behaviour\<rparr>"

definition fileItem :: "string \<Rightarrow> ShareFileItem" where
  "fileItem n = ShareFileItem n False []"

definition directory :: "string \<Rightarrow> ShareFileItem list \<Rightarrow> ShareFileItem" where
  "directory n items = ShareFileItem n True items"

text \<open>A scope of the share \<open>testshare\<close>: the live share for \<open>None\<close>, a snapshot otherwise.\<close>

definition scopeOf :: "int option \<Rightarrow> string \<Rightarrow> ShareFileItem list \<Rightarrow> Share" where
  "scopeOf time query root =
     \<lparr>Name = ''testshare'', IsDeleted = False, IsSnapshot = (time \<noteq> None), SnapshotTime = time,
      ShareClientUri = Uri ''https://testsa.file.core.windows.net'' ''/testshare'' query,
      Root = root\<rparr>"

text \<open>
  Directory \<open>A\<close> with two matches, one of them nested, followed by directory \<open>B\<close> with
  one.
\<close>

definition twoDirectories :: "ShareFileItem list" where
  "twoDirectories =
     [directory ''A'' [fileItem ''x'', directory ''s'' [fileItem ''x'']],
      directory ''B'' [fileItem ''x'']]"

definition liveScope :: Share where
  "liveScope = scopeOf None [] twoDirectories"

definition snapshot5 :: Share where
  "snapshot5 = scopeOf (Some 5) ''?sharesnapshot=5'' twoDirectories"

definition snapshot3 :: Share where
  "snapshot3 = scopeOf (Some 3) ''?sharesnapshot=3'' [fileItem ''x'']"

definition emptyLive :: Share where
  "emptyLive = scopeOf None [] [fileItem ''y'']"

definition testCred :: StorageSharedKeyCredential where
  "testCred = StorageSharedKeyCredential ''wgriesmfsressa2'' ''secret''"

definition found :: "int option \<Rightarrow> string \<Rightarrow> MatchObject" where
  "found time path = MatchObject ''testrg'' ''testsa'' ''testshare'' time path"

text \<open>The trace of a run under \<open>End\<close> over \<open>liveScope\<close>, up to its match.\<close>

definition endTrace :: "Event list" where
  "endTrace =
     [ScopeStarted (Uri ''https://testsa.file.core.windows.net'' ''/testshare'' []),
      Enqueued ''/'',
      DirectoryListed ''/''
        (Uri ''https://testsa.file.core.windows.net'' ''/testshare/'' []) testCred,
      ItemSeen ''/A'', Enqueued ''/A/'', ItemSeen ''/B'', Enqueued ''/B/'',
      DirectoryListed ''/A/''
        (Uri ''https://testsa.file.core.windows.net'' ''/testshare/A/'' []) testCred,
      ItemSeen ''/A/x'']"

text \<open>
  Shares as the account lists them: three snapshots of \<open>testshare\<close> out of order, the
  live share among them, and a snapshot of another share with the same prefix.
\<close>

definition exampleShares :: "Share list" where
  "exampleShares =
     [scopeOf (Some 3) ''?sharesnapshot=3'' [],
      scopeOf None [] [],
      scopeOf (Some 9) ''?sharesnapshot=9'' [],
      (scopeOf (Some 7) ''?sharesnapshot=7'' [])\<lparr>Name := ''testshare2''\<rparr>,
      scopeOf (Some 5) ''?sharesnapshot=5'' []]"

text \<open>A subscription with two storage accounts in one resource group.\<close>

definition exampleAccount :: "string \<Rightarrow> string \<Rightarrow> StorageAccount" where
  "exampleAccount n k =
     \<lparr>sa_StorageAccountName = n, sa_AllowSharedKeyAccess = Some True,
      sa_Keys = Some [(''key1'', k), (''key2'', ''unused'')],
      sa_Shares = [scopeOf None [] [fileItem ''x'']]\<rparr>"

definition exampleAzure :: Azure where
  "exampleAzure =
     \<lparr>Context = Some ''user@example.org'', ResourceGroups = [''testrg''],
      StorageAccounts =
        (\<lambda>g. if g = ''testrg''
             then [exampleAccount ''testsa'' ''k-testsa'', exampleAccount ''othersa'' ''k-othersa'']
             else [])\<rparr>"

lemmas fixture_defs = searchFor_def fileItem_def directory_def scopeOf_def twoDirectories_def
  testCred_def found_def liveScope_def snapshot5_def snapshot3_def emptyLive_def

lemma psEq_examples:
  "psEq ''A'' ''x'' = False" "psEq ''B'' ''x'' = False" "psEq ''s'' ''x'' = False"
  "psEq ''x'' ''x'' = True" "psEq ''y'' ''x'' = False"
  "psEq ''testrg'' ''testrg''" "psEq ''testsa'' ''testsa''" "psEq ''othersa'' ''othersa''"
  "\<not> psEq ''testsa'' ''othersa''" "\<not> psEq ''othersa'' ''testsa''"
  "psEq ''key1'' ''key1''" "psEq ''testshare'' ''testshare''" "\<not> psEq ''testshare2'' ''testshare''"
  by (simp_all add: psEq_def lowerChar_def)

lemmas run_simps = processQueue.simps Let_def enqueueDirectory_def enqueueEvents_def
  appendPath_def matchObject_def psEq_examples

section \<open>Properties of the cache database\<close>

subsection \<open>Schema comparison\<close>

text \<open>
  C1. The comparison is meant to return clean exactly when symmetric matching holds,
  a difference in primary-key membership being a mismatch. On the table without a
  primary key it returns clean although symmetric matching fails: both sides of the
  primary-key test read the expected column.
\<close>

theorem columnsMatch_ignores_primaryKey:
  "columnsMatch fileSharesColumns keylessFileShares \<and>
   \<not> symmetricMatch fileSharesColumns (introspected keylessFileShares)"
  by (simp add: columnsMatch_def symmetricMatch_def keylessFileShares_def
      fileSharesColumns_def foundColumnOf_def)

text \<open>
  What the comparison does establish: a schema it accepts matches the expected one on
  names, types and nullability.
\<close>

lemma scanRows_sound:
  "scanRows expectedColumns rows foundColumns = Some foundColumns' \<Longrightarrow>
   list_all
     (\<lambda>a. case map_of expectedColumns (name a) of None \<Rightarrow> nullable a | Some e \<Rightarrow> True)
     (introspected rows) \<and>
   (\<forall>k f. foundColumns' k = Some f \<longrightarrow>
      foundColumns k = Some f \<or> (f \<in> set (introspected rows) \<and> name f = k))"
proof (induction rows arbitrary: foundColumns)
  case Nil
  then show ?case by simp
next
  case (Cons r rows)
  from Cons.prems obtain t where t: "row_type r = Some t"
    by (cases "row_type r") simp_all
  let ?f = "foundColumnOf r t"
  show ?case
  proof (cases "map_of expectedColumns (name ?f)")
    case None
    with Cons.prems t have n: "nullable ?f"
      and r: "scanRows expectedColumns rows foundColumns = Some foundColumns'"
      by (simp_all add: Let_def split: if_splits)
    from Cons.IH [OF r] n None t show ?thesis by auto
  next
    case (Some e)
    with Cons.prems t have
      r: "scanRows expectedColumns rows (foundColumns(name ?f \<mapsto> ?f)) = Some foundColumns'"
      by (simp add: Let_def split: if_splits)
    from Cons.IH [OF r] Some t show ?thesis
      by (auto split: if_splits)
  qed
qed

lemma checkExpected_sound:
  "checkExpected es foundColumns \<Longrightarrow>
   \<forall>e\<in>set es. \<exists>f. foundColumns (name e) = Some f \<and> type e = type f \<and> nullable e = nullable f"
  by (induction es) (auto split: option.splits if_splits)

lemma columnsMatch_sound:
  assumes "columnsMatch expectedColumns rows"
  shows "matchIgnoringKey expectedColumns (introspected rows)"
proof -
  from assms obtain foundColumns where
    s: "scanRows expectedColumns rows Map.empty = Some foundColumns"
    and c: "checkExpected (map snd expectedColumns) foundColumns"
    by (auto simp: columnsMatch_def split: option.splits)
  from scanRows_sound [OF s] have
    u: "list_all
      (\<lambda>a. case map_of expectedColumns (name a) of None \<Rightarrow> nullable a | Some e \<Rightarrow> True)
      (introspected rows)"
    and o: "\<forall>k f. foundColumns k = Some f \<longrightarrow> f \<in> set (introspected rows) \<and> name f = k"
    by simp_all
  have "\<forall>e\<in>set (map snd expectedColumns). \<exists>a\<in>set (introspected rows).
      name a = name e \<and> type a = type e \<and> nullable a = nullable e"
  proof
    fix e
    assume "e \<in> set (map snd expectedColumns)"
    with checkExpected_sound [OF c] obtain f where
      "foundColumns (name e) = Some f" "type e = type f" "nullable e = nullable f"
      by blast
    with o show "\<exists>a\<in>set (introspected rows).
        name a = name e \<and> type a = type e \<and> nullable a = nullable e"
      by auto
  qed
  with u show ?thesis
    by (simp add: matchIgnoringKey_def list_all_iff list_ex_iff)
qed

subsection \<open>The text of the statements\<close>

lemma createFileShares_text:
  \<open>buildCreateTableQuery ''FileShares'' fileSharesColumns =
   ''CREATE TABLE "FileShares" ("fileShareId" TEXT NOT NULL, '' @
   ''"dataPlaneUri" TEXT NOT NULL, "resourceName" TEXT NOT NULL, '' @
   ''"resourceType" TEXT NOT NULL, "resourceCreateDate" INTEGER NOT NULL, '' @
   ''"fileShareName" TEXT NOT NULL, "isSnapshot" INTEGER NOT NULL, '' @
   ''"snapshotTime" INTEGER NOT NULL, PRIMARY KEY ("fileShareId", "dataPlaneUri")) STRICT''\<close>
  by (simp add: buildCreateTableQuery_def fileSharesColumns_def typeName_def primaryKeysOf_def)

lemma createFileSystemEntries_text:
  \<open>buildCreateTableQuery ''FileSystemEntries'' fileSystemEntriesColumns =
   ''CREATE TABLE "FileSystemEntries" ("fileShareId" TEXT NOT NULL, '' @
   ''"dataPlaneUri" TEXT NOT NULL, "path" TEXT NOT NULL, "entryName" TEXT NOT NULL, '' @
   ''PRIMARY KEY ("fileShareId", "dataPlaneUri", "path")) STRICT''\<close>
  by (simp add: buildCreateTableQuery_def fileSystemEntriesColumns_def typeName_def
      primaryKeysOf_def)

lemma statementOf_fixed:
  "statementOf ''PRAGMA journal_mode=WAL'' = Some JournalMode"
  "statementOf ''PRAGMA table_info(FileShares)'' = Some (TableInfo ''FileShares'')"
  "statementOf ''PRAGMA table_info(FileSystemEntries)'' =
     Some (TableInfo ''FileSystemEntries'')"
  "statementOf ''DROP TABLE IF EXISTS FileShares'' = Some (DropTableIfExists ''FileShares'')"
  "statementOf ''DROP TABLE IF EXISTS FileSystemEntries'' =
     Some (DropTableIfExists ''FileSystemEntries'')"
  by (simp_all add: statementOf_def)

lemma statementOf_create:
  "statementOf (buildCreateTableQuery ''FileShares'' fileSharesColumns) =
     Some (CreateTable ''FileShares'' fileSharesColumns)"
  "statementOf (buildCreateTableQuery ''FileSystemEntries'' fileSystemEntriesColumns) =
     Some (CreateTable ''FileSystemEntries'' fileSystemEntriesColumns)"
  by (simp_all add: statementOf_def createFileShares_text createFileSystemEntries_text)

lemma execute_ok:
  assumes "\<not> faults c (length (executed c))"
  shows "execute ''PRAGMA journal_mode=WAL'' c =
           Done [] (c\<lparr>executed := executed c @ [''PRAGMA journal_mode=WAL'']\<rparr>)"
    and "execute ''PRAGMA table_info(FileShares)'' c =
           Done (tables c ''FileShares'')
             (c\<lparr>executed := executed c @ [''PRAGMA table_info(FileShares)'']\<rparr>)"
    and "execute ''PRAGMA table_info(FileSystemEntries)'' c =
           Done (tables c ''FileSystemEntries'')
             (c\<lparr>executed := executed c @ [''PRAGMA table_info(FileSystemEntries)'']\<rparr>)"
    and "execute ''DROP TABLE IF EXISTS FileShares'' c =
           Done [] (c\<lparr>executed := executed c @ [''DROP TABLE IF EXISTS FileShares''],
                      tables := (tables c)(''FileShares'' := [])\<rparr>)"
    and "execute ''DROP TABLE IF EXISTS FileSystemEntries'' c =
           Done [] (c\<lparr>executed := executed c @ [''DROP TABLE IF EXISTS FileSystemEntries''],
                      tables := (tables c)(''FileSystemEntries'' := [])\<rparr>)"
  using assms by (simp_all add: execute_def statementOf_fixed Let_def)

lemma execute_create:
  assumes "\<not> faults c (length (executed c))"
  shows "tables c ''FileShares'' = [] \<Longrightarrow>
         execute (buildCreateTableQuery ''FileShares'' fileSharesColumns) c =
           Done [] (c\<lparr>executed := executed c @
                        [buildCreateTableQuery ''FileShares'' fileSharesColumns],
                      tables := (tables c)
                        (''FileShares'' := tableInfo (map snd fileSharesColumns) 0 0)\<rparr>)"
    and "tables c ''FileSystemEntries'' = [] \<Longrightarrow>
         execute (buildCreateTableQuery ''FileSystemEntries'' fileSystemEntriesColumns) c =
           Done [] (c\<lparr>executed := executed c @
                        [buildCreateTableQuery ''FileSystemEntries'' fileSystemEntriesColumns],
                      tables := (tables c)
                        (''FileSystemEntries'' :=
                           tableInfo (map snd fileSystemEntriesColumns) 0 0)\<rparr>)"
  using assms by (simp_all add: execute_def statementOf_create Let_def)

subsection \<open>Failures of initialization\<close>

text \<open>
  C7. Every failure of initialization is meant to come back as a typed failure that
  carries the offending query. When the drop of \<open>FileSystemEntries\<close> throws, the
  failure that comes back carries the text of the drop of \<open>FileShares\<close>; when
  \<open>PRAGMA journal_mode=WAL\<close> throws, \<open>init\<close> throws.
\<close>

theorem init_failure_reports:
  "fst (init ''cache.db'' None (failingAt 3)) =
     Returns (Failure (CacheDbInitFailure
       (CacheDbQueryFailure ''cache.db'' ''DROP TABLE IF EXISTS FileShares''))) \<and>
   map_option (\<lambda>c. last (executed c)) (snd (init ''cache.db'' None (failingAt 3))) =
     Some ''DROP TABLE IF EXISTS FileSystemEntries'' \<and>
   fst (init ''cache.db'' None (failingAt 0)) = Throws ''PRAGMA journal_mode=WAL''"
  by (simp add: init_def failingAt_def execute_def statementOf_fixed initFileShares_def
      queryFailure_def Let_def)

subsection \<open>A dirty \<open>FileShares\<close> table\<close>

lemma initFileShares_dirty:
  assumes nf: "\<forall>n. \<not> faults c n"
    and parse: "safeParse (tables c ''FileShares'') = Some data"
    and dirty: "data = [] \<or> \<not> columnsMatch fileSharesColumns data"
  shows "initFileShares dbPath c =
     Inr (c\<lparr>executed := executed c @
             [''PRAGMA table_info(FileShares)'', ''DROP TABLE IF EXISTS FileShares'',
              ''DROP TABLE IF EXISTS FileSystemEntries'',
              buildCreateTableQuery ''FileShares'' fileSharesColumns],
            tables := (tables c)
              (''FileShares'' := tableInfo (map snd fileSharesColumns) 0 0,
               ''FileSystemEntries'' := [])\<rparr>)"
proof -
  have create: "(if length data = 0 then True else \<not> columnsMatch fileSharesColumns data)"
    using dirty by auto
  show ?thesis
    unfolding initFileShares_def Let_def
    using nf parse create
    by (simp add: execute_ok execute_create fun_upd_twist)
qed

lemma initFileSystemEntries_missing:
  assumes nf: "\<forall>n. \<not> faults c n"
    and missing: "tables c ''FileSystemEntries'' = []"
  shows "initFileSystemEntries dbPath c =
     (Success (),
      c\<lparr>executed := executed c @
           [''PRAGMA table_info(FileSystemEntries)'', ''DROP TABLE IF EXISTS FileSystemEntries'',
            buildCreateTableQuery ''FileSystemEntries'' fileSystemEntriesColumns],
         tables := (tables c)
           (''FileSystemEntries'' := tableInfo (map snd fileSystemEntriesColumns) 0 0)\<rparr>)"
  unfolding initFileSystemEntries_def Let_def
  using nf missing by (simp add: execute_ok execute_create)

text \<open>
  A dirty \<open>FileShares\<close> table is not always reset. The table of \<open>legacyWorld\<close> has one
  column, so seven expected columns are missing; its row does not parse, and \<open>init\<close>
  returns the schema failure after two statements, neither of them a drop, although
  no statement throws.
\<close>

theorem unparsed_FileShares_not_reset:
  "faults (database legacyWorld) = noFaults \<and>
   map raw_name (tables (database legacyWorld) ''FileShares'') = [''fileShareId''] \<and>
   init ''cache.db'' None legacyWorld =
     (Returns (Failure (CacheDbInitFailure (CacheDbResultSchemaFailure ''cache.db''))),
      Some ((database legacyWorld)
        \<lparr>executed := [''PRAGMA journal_mode=WAL'', ''PRAGMA table_info(FileShares)'']\<rparr>))"
  by (simp add: legacyWorld_def withTables_def freshWorld_def noFaults_def init_def
      initFileShares_def execute_def statementOf_fixed Let_def parseRow_def
      sqliteDataTypeSchema_def)

text \<open>
  C2. When the store opens, the introspection of \<open>FileShares\<close> parses, and
  the table does not exist or the comparison rejects it, then, no statement throwing,
  \<open>init\<close> drops \<open>FileShares\<close> and \<open>FileSystemEntries\<close>, creates \<open>FileShares\<close> from the expected
  columns, finds \<open>FileSystemEntries\<close> missing, creates it as well, and returns success.
  By \<open>columnsMatch_sound\<close> the comparison rejects every table that differs from the
  expected one in a name, a type or a nullability.
\<close>

theorem init_resets_dirty_FileShares:
  assumes "mkdir w \<noteq> MkdirThrows" and "\<not> openThrows w"
    and "\<forall>n. \<not> faults (database w) n"
    and "safeParse (tables (database w) ''FileShares'') = Some data"
    and "data = [] \<or> \<not> columnsMatch fileSharesColumns data"
  shows "init dbPath None w =
     (Returns (Success ()),
      Some ((database w)
        \<lparr>executed := executed (database w) @ reconcileStatements,
         tables := (tables (database w))
           (''FileShares'' := tableInfo (map snd fileSharesColumns) 0 0,
            ''FileSystemEntries'' := tableInfo (map snd fileSystemEntriesColumns) 0 0)\<rparr>))"
proof -
  let ?c0 = "(database w)\<lparr>executed := executed (database w) @ [''PRAGMA journal_mode=WAL'']\<rparr>"
  have j: "execute ''PRAGMA journal_mode=WAL'' (database w) = Done [] ?c0"
    using assms(3) by (simp add: execute_ok)
  let ?c1 = "(database w)
      \<lparr>executed := executed (database w) @
         [''PRAGMA journal_mode=WAL'', ''PRAGMA table_info(FileShares)'',
          ''DROP TABLE IF EXISTS FileShares'', ''DROP TABLE IF EXISTS FileSystemEntries'',
          buildCreateTableQuery ''FileShares'' fileSharesColumns],
       tables := (tables (database w))
         (''FileShares'' := tableInfo (map snd fileSharesColumns) 0 0,
          ''FileSystemEntries'' := [])\<rparr>"
  have fs: "initFileShares dbPath ?c0 = Inr ?c1"
    using assms(3,4,5) initFileShares_dirty [of ?c0 data dbPath] by simp
  have en: "initFileSystemEntries dbPath ?c1 =
     (Success (),
      (database w)
        \<lparr>executed := executed (database w) @ reconcileStatements,
         tables := (tables (database w))
           (''FileShares'' := tableInfo (map snd fileSharesColumns) 0 0,
            ''FileSystemEntries'' := tableInfo (map snd fileSystemEntriesColumns) 0 0)\<rparr>)"
    using assms(3) initFileSystemEntries_missing [of ?c1 dbPath]
    by (simp add: reconcileStatements_def)
  show ?thesis
    unfolding init_def Let_def
    using assms(1,2) by (simp add: j) (simp only: fs en sum.case prod.case)
qed

text \<open>The stale cache: both tables exist, \<open>FileShares\<close> lacks a column, and both are reset.\<close>

lemma stale_parse: "safeParse (tables (database staleWorld) ''FileShares'') = Some staleRows"
  by (simp add: staleWorld_def withTables_def freshWorld_def staleFileShares_def staleRows_def
      fileSharesColumns_def parseRow_def typeName_def sqliteDataTypeSchema_def)

lemma stale_dirty: "\<not> columnsMatch fileSharesColumns staleRows"
  by (simp add: columnsMatch_def staleRows_def fileSharesColumns_def foundColumnOf_def)

theorem init_resets_dirty_FileShares_witness:
  "mkdir staleWorld \<noteq> MkdirThrows \<and> \<not> openThrows staleWorld \<and>
   (\<forall>n. \<not> faults (database staleWorld) n) \<and>
   tables (database staleWorld) ''FileSystemEntries'' \<noteq> [] \<and>
   safeParse (tables (database staleWorld) ''FileShares'') = Some staleRows \<and>
   \<not> columnsMatch fileSharesColumns staleRows \<and>
   fst (init ''cache.db'' None staleWorld) = Returns (Success ()) \<and>
   map_option executed (snd (init ''cache.db'' None staleWorld)) = Some reconcileStatements"
proof -
  have h: "mkdir staleWorld \<noteq> MkdirThrows" "\<not> openThrows staleWorld"
    "\<forall>n. \<not> faults (database staleWorld) n"
    "tables (database staleWorld) ''FileSystemEntries'' \<noteq> []"
    "executed (database staleWorld) = []"
    by (simp_all add: staleWorld_def withTables_def freshWorld_def noFaults_def
        fileSystemEntriesColumns_def)
  have d: "staleRows = [] \<or> \<not> columnsMatch fileSharesColumns staleRows"
    using stale_dirty by simp
  show ?thesis
    using init_resets_dirty_FileShares [OF h(1,2,3) stale_parse d, of "''cache.db''"]
      h stale_parse stale_dirty
    by simp
qed

subsection \<open>Validation of the request\<close>

lemma uuid_ok: "uuidShape ''1d16f9b3-bbe3-48d4-930a-27a74dca003b''"
  by (simp add: uuidShape_def upt_rec)

text \<open>
  A request with an empty target item name passes validation, and the run goes on to
  open the cache.
\<close>

theorem empty_target_accepted:
  "arg_targetItem emptyTarget = [] \<and> searchArgsSchema uuidShape emptyTarget \<and>
   fst (action uuidShape ''cache.db'' emptyTarget freshWorld) = Finished"
proof -
  have v: "searchArgsSchema uuidShape emptyTarget"
    by (simp add: emptyTarget_def searchArgsSchema_def uuid_ok storageAccountSchema_def
      fileShareNameSchema_def isLowerAlnum_def searchScopeSchema_def matchBehaviorSchema_def)
  have i: "fst (init ''cache.db'' None freshWorld) = Returns (Success ())"
    by (simp add: freshWorld_def noFaults_def init_def initFileShares_def
        initFileSystemEntries_def execute_def statementOf_fixed statementOf_create Let_def)
  show ?thesis
    using v i by (auto simp: action_def emptyTarget_def split: prod.splits Outcome.splits Result.splits)
qed

text \<open>
  C8. Validation does not read the target item name: whether a request
  passes does not depend on it. A request whose share name does not match the naming
  grammar does not pass, and a request that does not pass ends the run with exit code
  \<open>1\<close> before any connection is opened.
\<close>

theorem validation_ignores_targetItem:
  "searchArgsSchema uuid (args\<lparr>arg_targetItem := t\<rparr>) = searchArgsSchema uuid args \<and>
   (\<not> fileShareNameSchema (arg_fileShare args) \<longrightarrow> \<not> searchArgsSchema uuid args) \<and>
   (\<not> searchArgsSchema uuid args \<longrightarrow> action uuid dbPath args w = (Exit 1, None))"
  by (simp add: searchArgsSchema_def action_def)

theorem validation_ignores_targetItem_witness:
  "\<not> fileShareNameSchema ''bad--share'' \<and>
   \<not> searchArgsSchema uuidShape (emptyTarget\<lparr>arg_fileShare := ''bad--share''\<rparr>) \<and>
   action uuidShape ''cache.db'' (emptyTarget\<lparr>arg_fileShare := ''bad--share''\<rparr>) freshWorld =
     (Exit 1, None) \<and>
   searchArgsSchema uuidShape (emptyTarget\<lparr>arg_targetItem := ''testfile.docx''\<rparr>) =
     searchArgsSchema uuidShape emptyTarget"
proof -
  have b: "\<not> fileShareNameSchema (arg_fileShare (emptyTarget\<lparr>arg_fileShare := ''bad--share''\<rparr>))"
    by (simp add: fileShareNameSchema_def isLowerAlnum_def)
  show ?thesis
    using validation_ignores_targetItem
        [where uuid = uuidShape and args = "emptyTarget\<lparr>arg_fileShare := ''bad--share''\<rparr>"
          and dbPath = "''cache.db''" and w = freshWorld]
      validation_ignores_targetItem
        [where uuid = uuidShape and args = emptyTarget and t = "''testfile.docx''"] b
    by simp
qed

section \<open>Properties of the script\<close>

subsection \<open>Reading a run, piece by piece\<close>

lemma outputsOf_append: "outputsOf (xs @ ys) = outputsOf xs @ outputsOf ys"
  by (induction xs rule: outputsOf.induct) simp_all

lemma outputsOf_concat: "outputsOf (concat xss) = concat (map outputsOf xss)"
  by (induction xss) (simp_all add: outputsOf_append)

lemma scopesStarted_append: "scopesStarted (xs @ ys) = scopesStarted xs @ scopesStarted ys"
  by (induction xs rule: scopesStarted.induct) simp_all

lemma credentialsOf_append: "credentialsOf (xs @ ys) = credentialsOf xs @ credentialsOf ys"
  by (induction xs rule: credentialsOf.induct) simp_all

lemma seenPaths_append: "seenPaths (xs @ ys) = seenPaths xs @ seenPaths ys"
  by (induction xs rule: seenPaths.induct) simp_all

lemma seenPaths_concat: "seenPaths (concat xss) = concat (map seenPaths xss)"
  by (induction xss) (simp_all add: seenPaths_append)

lemma outputsOf_mset:
  "mset (outputsOf es) = image_mset (\<lambda>e. case e of Output obj \<Rightarrow> obj) (filter_mset (\<lambda>e. case e of Output obj \<Rightarrow> True | _ \<Rightarrow> False) (mset es))"
  by (induction es rule: outputsOf.induct) simp_all

lemma outputsOf_cong_mset: "mset es = mset es' \<Longrightarrow> mset (outputsOf es) = mset (outputsOf es')"
  by (simp add: outputsOf_mset)

lemma seenPaths_mset:
  "mset (seenPaths es) =
   image_mset (\<lambda>e. case e of ItemSeen path \<Rightarrow> path)
     (filter_mset (\<lambda>e. case e of ItemSeen path \<Rightarrow> True | _ \<Rightarrow> False) (mset es))"
  by (induction es rule: seenPaths.induct) simp_all

lemma seenPaths_set: "set (seenPaths es) = {path. ItemSeen path \<in> set es}"
  by (induction es rule: seenPaths.induct) auto

lemma outputsOf_nil_no_Output: "outputsOf es = [] \<Longrightarrow> Output obj \<notin> set es"
  by (induction es rule: outputsOf.induct) auto

lemma searchScopes_step:
  "searchScopes p cred (s # rest) =
     ScopeStarted (ShareClientUri s) # Enqueued ''/'' #
     fst (processQueue p s cred [(''/'', Root s)] False) @
     (if snd (processQueue p s cred [(''/'', Root s)] False) then [] else searchScopes p cred rest)"
  by (simp add: Let_def split: prod.splits)

subsection \<open>A traversal that is not cut short\<close>

lemma enumerateItems_unless_End:
  "MatchBehavior p \<noteq> End \<Longrightarrow>
   enumerateItems p targetScope dirPath items queue shouldBreak =
     (concat (map (seenEvents p targetScope dirPath) items),
      queue @ subdirectories dirPath items,
      (if MatchBehavior p = ScopeEnd \<and> list_ex (isMatch p) items then True else shouldBreak))"
  by (induction items arbitrary: queue shouldBreak)
     (auto simp: Let_def enqueueDirectory_def enqueueEvents_def seenEvents_def
        subdirectories_def isMatch_def)

lemma mset_itemEvents_split:
  "mset (concat (map (itemEvents p targetScope cred dirPath) items)) =
   mset (concat (map (seenEvents p targetScope dirPath) items)) +
   mset (concat (map (directoryEvents p targetScope cred) (subdirectories dirPath items)))"
proof (induction items)
  case Nil
  then show ?case by (simp add: subdirectories_def)
next
  case (Cons i items)
  then show ?case
    by (cases i)
       (simp add: subdirectories_def seenEvents_def directoryEvents_def isMatch_def
          enqueueEvents_def)
qed

lemma processQueue_mset:
  "MatchBehavior p \<noteq> End \<Longrightarrow>
   mset (fst (processQueue p targetScope cred queue shouldBreak)) =
   mset (concat (map (directoryEvents p targetScope cred) queue))"
proof (induction p targetScope cred queue shouldBreak rule: processQueue.induct)
  case (1 p targetScope sharedKeyCred shouldBreak)
  then show ?case by (simp add: processQueue.simps)
next
  case (2 p targetScope sharedKeyCred dirPath dirEnum queue shouldBreak)
  let ?sb = "(if MatchBehavior p = ScopeEnd \<and> list_ex (isMatch p) dirEnum then True else shouldBreak)"
  have e: "enumerateItems p targetScope dirPath dirEnum queue shouldBreak =
     (concat (map (seenEvents p targetScope dirPath) dirEnum),
      queue @ subdirectories dirPath dirEnum, ?sb)"
    using 2(2) by (rule enumerateItems_unless_End)
  have ih: "mset (fst (processQueue p targetScope sharedKeyCred (queue @ subdirectories dirPath dirEnum) ?sb)) =
     mset (concat (map (directoryEvents p targetScope sharedKeyCred) (queue @ subdirectories dirPath dirEnum)))"
    using 2(1) [OF refl e [symmetric] refl] 2(2) by simp
  obtain later sb'' where r: "processQueue p targetScope sharedKeyCred
      (queue @ subdirectories dirPath dirEnum) ?sb = (later, sb'')"
    by (cases "processQueue p targetScope sharedKeyCred
      (queue @ subdirectories dirPath dirEnum) ?sb")
  have "fst (processQueue p targetScope sharedKeyCred ((dirPath, dirEnum) # queue) shouldBreak) =
      DirectoryListed dirPath (appendPath (ShareClientUri targetScope) dirPath) sharedKeyCred #
      concat (map (seenEvents p targetScope dirPath) dirEnum) @ later"
    by (simp add: processQueue.simps e r Let_def)
  moreover have "mset later =
      mset (concat (map (directoryEvents p targetScope sharedKeyCred) queue)) +
      mset (concat (map (directoryEvents p targetScope sharedKeyCred)
        (subdirectories dirPath dirEnum)))"
    using ih r by simp
  ultimately show ?case
    by (simp add: directoryEvents_def [of _ _ _ "(dirPath, dirEnum)"] mset_itemEvents_split)
qed

lemma processQueue_set:
  assumes "MatchBehavior p \<noteq> End"
  shows "set (fst (processQueue p targetScope cred queue shouldBreak)) =
         set (concat (map (directoryEvents p targetScope cred) queue))"
  using processQueue_mset [OF assms, of targetScope cred queue shouldBreak]
  by (rule mset_eq_setD)

lemma outputsOf_itemEvents:
  "outputsOf (itemEvents p targetScope cred dirPath dirItem) = itemMatches p targetScope dirPath dirItem"
proof (induction p targetScope cred dirPath dirItem rule: itemEvents.induct)
  case (1 p targetScope cred dirPath n d items)
  have "concat (map (\<lambda>x. outputsOf (itemEvents p targetScope cred (dirPath @ n @ ''/'') x)) items) =
        concat (map (itemMatches p targetScope (dirPath @ n @ ''/'')) items)" if d
    using 1 that by (auto intro!: arg_cong [where f = concat])
  then show ?case
    by (simp add: outputsOf_append outputsOf_concat comp_def)
qed

lemma seenPaths_itemEvents:
  "seenPaths (itemEvents p targetScope cred (parent @ ''/'') dirItem) = nodePaths parent dirItem"
proof (induction parent dirItem rule: nodePaths.induct)
  case (1 parent n d items)
  have "concat (map (\<lambda>x. seenPaths (itemEvents p targetScope cred ((parent @ ''/'' @ n) @ ''/'') x)) items) =
        concat (map (nodePaths (parent @ ''/'' @ n)) items)" if d
    using 1 that by (auto intro!: arg_cong [where f = concat])
  then show ?case
    by (simp add: seenPaths_append seenPaths_concat comp_def)
qed

lemma root_outputs:
  assumes "MatchBehavior p \<noteq> End"
  shows "mset (outputsOf (fst (processQueue p targetScope cred [(''/'', Root targetScope)] shouldBreak))) =
    mset (scopeMatches p targetScope)"
proof -
  have "mset (fst (processQueue p targetScope cred [(''/'', Root targetScope)] shouldBreak)) =
     mset (directoryEvents p targetScope cred (''/'', Root targetScope))"
    using processQueue_mset [OF assms, of targetScope cred "[(''/'', Root targetScope)]" shouldBreak]
    by simp
  from outputsOf_cong_mset [OF this] show ?thesis
    by (simp add: directoryEvents_def scopeMatches_def outputsOf_concat outputsOf_itemEvents comp_def)
qed

lemma outputsOf_seenEvents:
  "outputsOf (concat (map (seenEvents p targetScope dirPath) items)) = [] \<longleftrightarrow> \<not> list_ex (isMatch p) items"
  by (induction items) (simp_all add: seenEvents_def enqueueEvents_def outputsOf_append)

lemma processQueue_shouldBreak:
  "MatchBehavior p = ScopeEnd \<Longrightarrow>
   snd (processQueue p targetScope cred queue shouldBreak) =
     (shouldBreak \<or> outputsOf (fst (processQueue p targetScope cred queue shouldBreak)) \<noteq> [])"
proof (induction p targetScope cred queue shouldBreak rule: processQueue.induct)
  case (1 p targetScope sharedKeyCred shouldBreak)
  then show ?case by (simp add: processQueue.simps)
next
  case (2 p targetScope sharedKeyCred dirPath dirEnum queue shouldBreak)
  let ?sb = "(if MatchBehavior p = ScopeEnd \<and> list_ex (isMatch p) dirEnum then True else shouldBreak)"
  have ne: "MatchBehavior p \<noteq> End" using 2(2) by simp
  have e: "enumerateItems p targetScope dirPath dirEnum queue shouldBreak =
     (concat (map (seenEvents p targetScope dirPath) dirEnum),
      queue @ subdirectories dirPath dirEnum, ?sb)"
    using ne by (rule enumerateItems_unless_End)
  obtain later sb'' where r: "processQueue p targetScope sharedKeyCred
      (queue @ subdirectories dirPath dirEnum) ?sb = (later, sb'')"
    by (cases "processQueue p targetScope sharedKeyCred
      (queue @ subdirectories dirPath dirEnum) ?sb")
  have ih: "sb'' = (?sb \<or> outputsOf later \<noteq> [])"
    using 2(1) [OF refl e [symmetric] refl] 2(2) r by simp
  have "processQueue p targetScope sharedKeyCred ((dirPath, dirEnum) # queue) shouldBreak =
      (DirectoryListed dirPath (appendPath (ShareClientUri targetScope) dirPath) sharedKeyCred #
      concat (map (seenEvents p targetScope dirPath) dirEnum) @ later, sb'')"
    by (simp add: processQueue.simps e r Let_def)
  then show ?case
    using ih 2(2) by (auto simp: outputsOf_append outputsOf_seenEvents)
qed

lemma processQueue_scopesStarted:
  "scopesStarted (fst (processQueue p targetScope cred queue shouldBreak)) = []"
proof (induction p targetScope cred queue shouldBreak rule: processQueue.induct)
  case (1 p targetScope sharedKeyCred shouldBreak)
  then show ?case by (simp add: processQueue.simps)
next
  case (2 p targetScope sharedKeyCred dirPath dirEnum queue shouldBreak)
  obtain events queue' sb' where e: "enumerateItems p targetScope dirPath dirEnum queue shouldBreak = (events, queue', sb')"
    by (cases "enumerateItems p targetScope dirPath dirEnum queue shouldBreak")
  obtain later sb'' where r: "processQueue p targetScope sharedKeyCred queue' sb' = (later, sb'')"
    by (cases "processQueue p targetScope sharedKeyCred queue' sb'")
  have ih: "scopesStarted later = []"
    using 2 [OF refl e [symmetric] refl] r by simp
  have ev: "scopesStarted events = []"
    using e
  proof (induction dirEnum arbitrary: queue shouldBreak events queue' sb')
    case Nil
    then show ?case by simp
  next
    case (Cons a dirEnum)
    then show ?case
      by (auto simp: Let_def enqueueEvents_def scopesStarted_append
          split: if_splits prod.splits)
  qed
  show ?case
    by (simp add: processQueue.simps e r Let_def scopesStarted_append ih ev)
qed

subsection \<open>Any traversal\<close>

lemma enumerateItems_prefix:
  assumes "enumerateItems p targetScope dirPath (before @ rest) queue shouldBreak =
             (events, queue', shouldBreak')"
    and "MatchBehavior p = End \<longrightarrow> \<not> list_ex (isMatch p) before"
  shows "\<exists>ev sb. events = concat (map (seenEvents p targetScope dirPath) before) @ ev \<and>
           enumerateItems p targetScope dirPath rest (queue @ subdirectories dirPath before) sb =
             (ev, queue', shouldBreak')"
  using assms
proof (induction before arbitrary: queue shouldBreak events)
  case Nil
  then show ?case by (auto simp: subdirectories_def)
next
  case (Cons i before)
  let ?path = "dirPath @ ItemName i"
  let ?q = "enqueueDirectory i ?path queue"
  have notEnd: "\<not> (isMatch p i \<and> MatchBehavior p = End)"
    using Cons.prems(2) by auto
  obtain ev0 sb0 where
    r: "enumerateItems p targetScope dirPath (before @ rest) ?q sb0 = (ev0, queue', shouldBreak')"
    and ev: "events = seenEvents p targetScope dirPath i @ ev0"
    using Cons.prems(1) notEnd
    by (auto simp: Let_def seenEvents_def isMatch_def split: if_splits prod.splits)
  have "MatchBehavior p = End \<longrightarrow> \<not> list_ex (isMatch p) before"
    using Cons.prems(2) by auto
  from Cons.IH [OF r this] obtain ev1 sb1 where
    "ev0 = concat (map (seenEvents p targetScope dirPath) before) @ ev1"
    "enumerateItems p targetScope dirPath rest (?q @ subdirectories dirPath before) sb1 =
       (ev1, queue', shouldBreak')"
    by blast
  moreover have "?q @ subdirectories dirPath before = queue @ subdirectories dirPath (i # before)"
    by (simp add: enqueueDirectory_def subdirectories_def)
  ultimately show ?case using ev by auto
qed

lemma enumerateItems_subset:
  "enumerateItems p targetScope dirPath items queue shouldBreak = (events, queue', shouldBreak')
   \<Longrightarrow> set events \<subseteq> set (concat (map (seenEvents p targetScope dirPath) items)) \<and>
       set queue' \<subseteq> set queue \<union> set (subdirectories dirPath items)"
proof (induction items arbitrary: queue shouldBreak events)
  case Nil
  then show ?case by simp
next
  case (Cons i items)
  show ?case
  proof (cases "isMatch p i \<and> MatchBehavior p = End")
    case True
    with Cons.prems show ?thesis
      by (auto simp: Let_def seenEvents_def isMatch_def)
  next
    case False
    then obtain ev sb where
      r: "enumerateItems p targetScope dirPath items
            (enqueueDirectory i (dirPath @ ItemName i) queue) sb = (ev, queue', shouldBreak')"
      and ev: "events = seenEvents p targetScope dirPath i @ ev"
      using Cons.prems
      by (auto simp: Let_def seenEvents_def isMatch_def split: if_splits prod.splits)
    from Cons.IH [OF r] show ?thesis
      by (auto simp: ev enqueueDirectory_def subdirectories_def split: if_splits)
  qed
qed

lemma processQueue_subset:
  "set (fst (processQueue p targetScope cred queue shouldBreak)) \<subseteq>
   set (concat (map (directoryEvents p targetScope cred) queue))"
proof (induction p targetScope cred queue shouldBreak rule: processQueue.induct)
  case (1 p targetScope sharedKeyCred shouldBreak)
  then show ?case by (simp add: processQueue.simps)
next
  case (2 p targetScope sharedKeyCred dirPath dirEnum queue shouldBreak)
  obtain ev queue' sb' where
    e: "enumerateItems p targetScope dirPath dirEnum queue shouldBreak = (ev, queue', sb')"
    by (cases "enumerateItems p targetScope dirPath dirEnum queue shouldBreak")
  obtain later sb'' where r: "processQueue p targetScope sharedKeyCred queue' sb' = (later, sb'')"
    by (cases "processQueue p targetScope sharedKeyCred queue' sb'")
  have ih: "set later \<subseteq> set (concat (map (directoryEvents p targetScope sharedKeyCred) queue'))"
    using 2 [OF refl e [symmetric] refl] r by simp
  from enumerateItems_subset [OF e]
  have sub: "set ev \<subseteq> set (concat (map (seenEvents p targetScope dirPath) dirEnum))"
    and q: "set queue' \<subseteq> set queue \<union> set (subdirectories dirPath dirEnum)"
    by simp_all
  have split: "set (concat (map (itemEvents p targetScope sharedKeyCred dirPath) dirEnum)) =
      set (concat (map (seenEvents p targetScope dirPath) dirEnum)) \<union>
      set (concat (map (directoryEvents p targetScope sharedKeyCred)
        (subdirectories dirPath dirEnum)))"
    using arg_cong [OF mset_itemEvents_split [of p targetScope sharedKeyCred dirPath dirEnum],
        of set_mset]
    by simp
  have "set later \<subseteq>
      set (concat (map (directoryEvents p targetScope sharedKeyCred) queue)) \<union>
      set (concat (map (directoryEvents p targetScope sharedKeyCred)
        (subdirectories dirPath dirEnum)))"
  proof
    fix t
    assume "t \<in> set later"
    with ih obtain x where x: "x \<in> set queue'"
      and t: "t \<in> set (directoryEvents p targetScope sharedKeyCred x)"
      by auto
    from x q have "x \<in> set queue \<or> x \<in> set (subdirectories dirPath dirEnum)"
      by auto
    with t show "t \<in> set (concat (map (directoryEvents p targetScope sharedKeyCred) queue)) \<union>
        set (concat (map (directoryEvents p targetScope sharedKeyCred)
          (subdirectories dirPath dirEnum)))"
      by auto
  qed
  then show ?case
    using sub split
    by (auto simp: processQueue.simps e r Let_def directoryEvents_def [of _ _ _ "(dirPath, dirEnum)"])
qed

subsection \<open>The order of the scopes\<close>

lemma snapshotTimeLess_total: "\<not> snapshotTimeLess a b \<Longrightarrow> a \<noteq> b \<Longrightarrow> snapshotTimeLess b a"
  by (cases a; cases b) auto

lemma snapshotTimeLess_trans:
  "snapshotTimeLess a b \<Longrightarrow> snapshotTimeLess b c \<Longrightarrow> snapshotTimeLess a c"
  by (cases a; cases b; cases c) auto

lemma set_insertDescending: "set (insertDescending x ys) = insert x (set ys)"
  by (induction ys) auto

lemma set_sortDescending: "set (sortDescending xs) = set xs"
  by (induction xs) (simp_all add: set_insertDescending)

lemma strictlyDescending_insert:
  assumes "strictlyDescending ys" and "\<forall>y\<in>set ys. SnapshotTime y \<noteq> SnapshotTime x"
  shows "strictlyDescending (insertDescending x ys)"
  using assms
proof (induction ys)
  case Nil
  then show ?case by (simp add: strictlyDescending_def)
next
  case (Cons y ys)
  show ?case
  proof (cases "snapshotTimeLess (SnapshotTime x) (SnapshotTime y)")
    case True
    have "strictlyDescending (insertDescending x ys)"
      using Cons by (simp add: strictlyDescending_def)
    then show ?thesis
      using True Cons.prems
      by (auto simp: strictlyDescending_def set_insertDescending)
  next
    case False
    then have xy: "snapshotTimeLess (SnapshotTime y) (SnapshotTime x)"
      using Cons.prems(2) snapshotTimeLess_total by (metis list.set_intros(1))
    have "\<forall>z\<in>set ys. snapshotTimeLess (SnapshotTime z) (SnapshotTime x)"
      using Cons.prems(1) xy snapshotTimeLess_trans
      by (auto simp: strictlyDescending_def)
    then show ?thesis
      using False xy Cons.prems(1) by (simp add: strictlyDescending_def)
  qed
qed

lemma strictlyDescending_sort:
  "distinct (map SnapshotTime xs) \<Longrightarrow> strictlyDescending (sortDescending xs)"
proof (induction xs)
  case Nil
  then show ?case by (simp add: strictlyDescending_def)
next
  case (Cons x xs)
  then have "strictlyDescending (sortDescending xs)" by simp
  moreover have "\<forall>y\<in>set (sortDescending xs). SnapshotTime y \<noteq> SnapshotTime x"
    using Cons.prems by (auto simp: set_sortDescending intro: rev_image_eqI)
  ultimately show ?case by (simp add: strictlyDescending_insert)
qed

lemma distinct_map_filter_mono:
  assumes "distinct (map f (filter P xs))" and "\<And>x. Q x \<Longrightarrow> P x"
  shows "distinct (map f (filter Q xs))"
proof -
  have "filter Q xs = filter Q (filter P xs)"
    using assms(2) by (induction xs) auto
  then show ?thesis
    using distinct_map_filter [OF assms(1), of Q] by simp
qed

text \<open>
  C5. Under \<open>Both\<close> the scopes are the live share followed by its snapshots, and the
  snapshots stand in strictly descending order of \<open>SnapshotTime\<close>. The snapshots of a
  share have pairwise different times.
\<close>

theorem Both_live_then_snapshots:
  assumes "SearchScope p = Both"
    and "targetScopesOf p shares = Inr targetScopes"
    and "distinct (map SnapshotTime
           (filter (\<lambda>s. IsSnapshot s \<and> psEq (Name s) (FileShareName p)) shares))"
  shows "\<exists>live snapshots. targetScopes = live @ snapshots \<and>
           (\<forall>s\<in>set live. \<not> IsSnapshot s) \<and> (\<forall>s\<in>set snapshots. IsSnapshot s) \<and>
           strictlyDescending snapshots"
proof -
  let ?matching = "filter (\<lambda>s. psEq (Name s) (FileShareName p) \<and> \<not> IsDeleted s)
      (filter (\<lambda>s. take (length (FileShareName p)) (Name s) = FileShareName p) shares)"
  let ?live = "filter (\<lambda>s. \<not> IsSnapshot s) ?matching"
  let ?snaps = "sortDescending (filter (\<lambda>s. IsSnapshot s) ?matching)"
  have ts: "targetScopes = ?live @ ?snaps"
    using assms(1,2) by (auto simp: targetScopesOf_def Let_def split: if_splits)
  have "distinct (map SnapshotTime (filter (\<lambda>s. IsSnapshot s) ?matching))"
    unfolding filter_filter
    by (rule distinct_map_filter_mono [OF assms(3)]) simp
  then have "strictlyDescending ?snaps" by (rule strictlyDescending_sort)
  moreover have "\<forall>s\<in>set ?snaps. IsSnapshot s" by (simp add: set_sortDescending)
  moreover have "\<forall>s\<in>set ?live. \<not> IsSnapshot s" by simp
  ultimately show ?thesis using ts by blast
qed

theorem Both_live_then_snapshots_witness:
  "SearchScope (searchFor Continue) = Both \<and>
   targetScopesOf (searchFor Continue) exampleShares =
     Inr [scopeOf None [] [], scopeOf (Some 9) ''?sharesnapshot=9'' [],
          scopeOf (Some 5) ''?sharesnapshot=5'' [], scopeOf (Some 3) ''?sharesnapshot=3'' []] \<and>
   (\<exists>live snapshots.
      [scopeOf None [] [], scopeOf (Some 9) ''?sharesnapshot=9'' [],
       scopeOf (Some 5) ''?sharesnapshot=5'' [], scopeOf (Some 3) ''?sharesnapshot=3'' []] =
        live @ snapshots \<and>
      (\<forall>s\<in>set live. \<not> IsSnapshot s) \<and> (\<forall>s\<in>set snapshots. IsSnapshot s) \<and>
      strictlyDescending snapshots)"
proof -
  have m: "SearchScope (searchFor Continue) = Both"
    by (simp add: searchFor_def)
  have r: "targetScopesOf (searchFor Continue) exampleShares =
     Inr [scopeOf None [] [], scopeOf (Some 9) ''?sharesnapshot=9'' [],
          scopeOf (Some 5) ''?sharesnapshot=5'' [], scopeOf (Some 3) ''?sharesnapshot=3'' []]"
    by (simp add: targetScopesOf_def exampleShares_def searchFor_def scopeOf_def psEq_examples
        Let_def)
  have d: "distinct (map SnapshotTime
      (filter (\<lambda>s. IsSnapshot s \<and> psEq (Name s) (FileShareName (searchFor Continue)))
         exampleShares))"
    by (simp add: exampleShares_def searchFor_def scopeOf_def psEq_examples)
  from Both_live_then_snapshots [OF m r d] m r show ?thesis by simp
qed

subsection \<open>The credential\<close>

lemma enumerateItems_credentials:
  "enumerateItems p targetScope dirPath items queue shouldBreak = (events, queue', shouldBreak')
   \<Longrightarrow> credentialsOf events = []"
  by (induction items arbitrary: queue shouldBreak events queue' shouldBreak')
     (auto simp: Let_def enqueueEvents_def credentialsOf_append split: if_splits prod.splits)

lemma processQueue_credentials:
  "set (credentialsOf (fst (processQueue p targetScope cred queue shouldBreak))) \<subseteq> {cred}"
proof (induction p targetScope cred queue shouldBreak rule: processQueue.induct)
  case (1 p targetScope sharedKeyCred shouldBreak)
  then show ?case by (simp add: processQueue.simps)
next
  case (2 p targetScope sharedKeyCred dirPath dirEnum queue shouldBreak)
  obtain ev queue' sb' where
    e: "enumerateItems p targetScope dirPath dirEnum queue shouldBreak = (ev, queue', sb')"
    by (cases "enumerateItems p targetScope dirPath dirEnum queue shouldBreak")
  obtain later sb'' where r: "processQueue p targetScope sharedKeyCred queue' sb' = (later, sb'')"
    by (cases "processQueue p targetScope sharedKeyCred queue' sb'")
  have "set (credentialsOf later) \<subseteq> {sharedKeyCred}"
    using 2 [OF refl e [symmetric] refl] r by simp
  then show ?case
    by (simp add: processQueue.simps e r Let_def credentialsOf_append
        enumerateItems_credentials [OF e])
qed

lemma searchScopes_credentials:
  "set (credentialsOf (searchScopes p cred scopes)) \<subseteq> {cred}"
proof (induction scopes)
  case Nil
  then show ?case by simp
next
  case (Cons s scopes)
  then show ?case
    using processQueue_credentials [of p s cred "[(''/'', Root s)]" False]
    by (auto simp: searchScopes_step credentialsOf_append simp del: searchScopes.simps)
qed

lemma recursiveSearch_credentials:
  assumes "recursiveSearch azure p = Inr events" and "cred \<in> set (credentialsOf events)"
  shows "AccountName cred = ''wgriesmfsressa2''"
proof -
  from assms(1) obtain key targetScopes where
    "events = searchScopes p (StorageSharedKeyCredential ''wgriesmfsressa2'' key) targetScopes"
    by (auto simp: recursiveSearch_def Let_def split: option.splits if_splits sum.splits)
  with assms(2) searchScopes_credentials show ?thesis
    by fastforce
qed

text \<open>
  C6. Two runs that differ in \<open>-StorageAccountName\<close> alone list every directory with a
  credential of the same account name, the constant \<open>wgriesmfsressa2\<close>.
\<close>

theorem credential_account_fixed:
  assumes "recursiveSearch azure p = Inr events"
    and "recursiveSearch azure (p\<lparr>StorageAccountName := other\<rparr>) = Inr events'"
    and "cred \<in> set (credentialsOf events)"
    and "cred' \<in> set (credentialsOf events')"
  shows "AccountName cred = ''wgriesmfsressa2'' \<and> AccountName cred' = AccountName cred"
  using recursiveSearch_credentials [OF assms(1,3)] recursiveSearch_credentials [OF assms(2,4)]
  by simp

theorem credential_account_fixed_witness:
  "(\<exists>events events'.
      recursiveSearch exampleAzure (searchFor Continue) = Inr events \<and>
      recursiveSearch exampleAzure ((searchFor Continue)\<lparr>StorageAccountName := ''othersa''\<rparr>) =
        Inr events' \<and>
      StorageSharedKeyCredential ''wgriesmfsressa2'' ''k-testsa'' \<in> set (credentialsOf events) \<and>
      StorageSharedKeyCredential ''wgriesmfsressa2'' ''k-othersa'' \<in> set (credentialsOf events')) \<and>
   AccountName (StorageSharedKeyCredential ''wgriesmfsressa2'' ''k-testsa'') = ''wgriesmfsressa2'' \<and>
   AccountName (StorageSharedKeyCredential ''wgriesmfsressa2'' ''k-othersa'') =
     AccountName (StorageSharedKeyCredential ''wgriesmfsressa2'' ''k-testsa'')"
proof -
  let ?p = "searchFor Continue"
  let ?c = "StorageSharedKeyCredential ''wgriesmfsressa2'' ''k-testsa''"
  let ?c' = "StorageSharedKeyCredential ''wgriesmfsressa2'' ''k-othersa''"
  have r: "recursiveSearch exampleAzure ?p =
      Inr (searchScopes ?p ?c [scopeOf None [] [fileItem ''x'']])"
    by (simp add: recursiveSearch_def exampleAzure_def exampleAccount_def searchFor_def
        targetScopesOf_def scopeOf_def psEq_examples Let_def)
  have r': "recursiveSearch exampleAzure (?p\<lparr>StorageAccountName := ''othersa''\<rparr>) =
      Inr (searchScopes (?p\<lparr>StorageAccountName := ''othersa''\<rparr>) ?c'
        [scopeOf None [] [fileItem ''x'']])"
    by (simp add: recursiveSearch_def exampleAzure_def exampleAccount_def searchFor_def
        targetScopesOf_def scopeOf_def psEq_examples Let_def)
  have i: "?c \<in> set (credentialsOf (searchScopes ?p ?c [scopeOf None [] [fileItem ''x'']]))"
    by (simp add: run_simps fixture_defs)
  have i': "?c' \<in> set (credentialsOf (searchScopes (?p\<lparr>StorageAccountName := ''othersa''\<rparr>) ?c'
        [scopeOf None [] [fileItem ''x'']]))"
    by (simp add: run_simps fixture_defs)
  from credential_account_fixed [OF r r' i i'] r r' i i' show ?thesis by simp
qed

subsection \<open>\<open>End\<close>\<close>

lemma endsAtMatch_prepend:
  "outputsOf xs = [] \<Longrightarrow> endsAtMatch ys \<Longrightarrow> endsAtMatch (xs @ ys)"
  unfolding endsAtMatch_def
  by (metis append.assoc outputsOf_append append_Nil2)

lemma enumerateItems_End:
  "MatchBehavior p = End \<Longrightarrow>
   enumerateItems p targetScope dirPath items queue shouldBreak = (events, queue', shouldBreak') \<Longrightarrow>
   (outputsOf events = [] \<and> shouldBreak' = shouldBreak) \<or>
   (endsAtMatch events \<and> queue' = [] \<and> shouldBreak')"
proof (induction items arbitrary: queue shouldBreak events queue' shouldBreak')
  case Nil
  then show ?case by simp
next
  case (Cons dirItem rest)
  show ?case
  proof (cases "psEq (ItemName dirItem) (TargetItemName p)")
    case True
    with Cons.prems have "events = [ItemSeen (dirPath @ ItemName dirItem)] @
        [Output (matchObject p targetScope (dirPath @ ItemName dirItem))]"
      and "queue' = []" and "shouldBreak'"
      by (simp_all add: Let_def)
    then show ?thesis
      unfolding endsAtMatch_def by (metis outputsOf.simps(1,6))
  next
    case False
    then obtain ev where
      r: "enumerateItems p targetScope dirPath rest
            (enqueueDirectory dirItem (dirPath @ ItemName dirItem) queue) shouldBreak
          = (ev, queue', shouldBreak')"
      and ev: "events = ItemSeen (dirPath @ ItemName dirItem) #
          enqueueEvents dirItem (dirPath @ ItemName dirItem) @ ev"
      using Cons.prems by (auto simp: Let_def split: prod.splits)
    have q: "outputsOf (enqueueEvents dirItem (dirPath @ ItemName dirItem)) = []"
      by (simp add: enqueueEvents_def)
    from Cons.IH [OF Cons.prems(1) r]
    show ?thesis
    proof
      assume "outputsOf ev = [] \<and> shouldBreak' = shouldBreak"
      then show ?thesis by (simp add: ev q outputsOf_append)
    next
      assume a: "endsAtMatch ev \<and> queue' = [] \<and> shouldBreak'"
      have "outputsOf (ItemSeen (dirPath @ ItemName dirItem) #
          enqueueEvents dirItem (dirPath @ ItemName dirItem)) = []"
        by (simp add: q)
      from endsAtMatch_prepend [OF this] a have "endsAtMatch events"
        by (simp add: ev)
      with a show ?thesis by simp
    qed
  qed
qed

lemma processQueue_End:
  "MatchBehavior p = End \<Longrightarrow>
   processQueue p targetScope cred queue shouldBreak = (events, shouldBreak') \<Longrightarrow>
   (outputsOf events = [] \<and> shouldBreak' = shouldBreak) \<or> (endsAtMatch events \<and> shouldBreak')"
proof (induction p targetScope cred queue shouldBreak arbitrary: events shouldBreak'
    rule: processQueue.induct)
  case (1 p targetScope sharedKeyCred shouldBreak)
  then show ?case by (simp add: processQueue.simps)
next
  case (2 p targetScope sharedKeyCred dirPath dirEnum queue shouldBreak)
  obtain ev queue' sb' where
    e: "enumerateItems p targetScope dirPath dirEnum queue shouldBreak = (ev, queue', sb')"
    by (cases "enumerateItems p targetScope dirPath dirEnum queue shouldBreak")
  obtain later sb'' where r: "processQueue p targetScope sharedKeyCred queue' sb' = (later, sb'')"
    by (cases "processQueue p targetScope sharedKeyCred queue' sb'")
  let ?head = "DirectoryListed dirPath (appendPath (ShareClientUri targetScope) dirPath) sharedKeyCred"
  have res: "events = ?head # ev @ later" "shouldBreak' = sb''"
    using 2(3) by (simp_all add: processQueue.simps e r Let_def)
  have ih: "(outputsOf later = [] \<and> sb'' = sb') \<or> (endsAtMatch later \<and> sb'')"
    using 2(1) [OF refl e [symmetric] refl 2(2) r] .
  from enumerateItems_End [OF 2(2) e]
  show ?case
  proof
    assume a: "outputsOf ev = [] \<and> sb' = shouldBreak"
    from ih show ?thesis
    proof
      assume "outputsOf later = [] \<and> sb'' = sb'"
      with a show ?thesis by (simp add: res outputsOf_append)
    next
      assume b: "endsAtMatch later \<and> sb''"
      have "outputsOf (?head # ev) = []" using a by simp
      from endsAtMatch_prepend [OF this] b show ?thesis
        by (simp add: res)
    qed
  next
    assume a: "endsAtMatch ev \<and> queue' = [] \<and> sb'"
    then have "later = []" "sb'' = sb'" using r by (simp_all add: processQueue.simps)
    moreover have "endsAtMatch (?head # ev)"
      using endsAtMatch_prepend [of "[?head]" ev] a by simp
    ultimately show ?thesis using a by (simp add: res)
  qed
qed

lemma searchScopes_End:
  "MatchBehavior p = End \<Longrightarrow>
   outputsOf (searchScopes p cred scopes) = [] \<or> endsAtMatch (searchScopes p cred scopes)"
proof (induction scopes)
  case Nil
  then show ?case by simp
next
  case (Cons s scopes)
  obtain events sb where r: "processQueue p s cred [(''/'', Root s)] False = (events, sb)"
    by (cases "processQueue p s cred [(''/'', Root s)] False")
  from processQueue_End [OF Cons.prems r]
  show ?case
  proof
    assume a: "outputsOf events = [] \<and> sb = False"
    then have eq: "searchScopes p cred (s # scopes) =
        (ScopeStarted (ShareClientUri s) # Enqueued ''/'' # events) @ searchScopes p cred scopes"
      by (simp add: searchScopes_step r del: searchScopes.simps)
    have silent: "outputsOf (ScopeStarted (ShareClientUri s) # Enqueued ''/'' # events) = []"
      using a by simp
    from Cons.IH [OF Cons.prems] show ?thesis
    proof
      assume "outputsOf (searchScopes p cred scopes) = []"
      then show ?thesis using silent by (simp only: eq outputsOf_append) simp
    next
      assume "endsAtMatch (searchScopes p cred scopes)"
      from endsAtMatch_prepend [OF silent this] show ?thesis by (simp only: eq) simp
    qed
  next
    assume a: "endsAtMatch events \<and> sb"
    then have eq: "searchScopes p cred (s # scopes) =
        [ScopeStarted (ShareClientUri s), Enqueued ''/''] @ events"
      by (simp add: searchScopes_step r del: searchScopes.simps)
    have "endsAtMatch ([ScopeStarted (ShareClientUri s), Enqueued ''/''] @ events)"
      using a by (intro endsAtMatch_prepend) simp_all
    then show ?thesis by (simp only: eq) simp
  qed
qed

text \<open>
  C3. Under \<open>End\<close> nothing follows a match: wherever an output stands in the run over
  the scopes, it is the last event, so no further item is enumerated, no further
  directory of this or a later scope is listed, and it is the only output. The
  enumeration of a listing that writes an output leaves the queue empty and
  \<open>$shouldBreak\<close> set.
\<close>

theorem End_stops_at_match:
  assumes "MatchBehavior p = End"
  shows "(searchScopes p cred scopes = pre @ Output obj # post \<longrightarrow>
            post = [] \<and> outputsOf pre = []) \<and>
         (enumerateItems p targetScope dirPath items queue shouldBreak =
            (events, queue', shouldBreak') \<and> outputsOf events \<noteq> [] \<longrightarrow>
            queue' = [] \<and> shouldBreak')"
proof -
  have run: "post = [] \<and> outputsOf pre = []"
    if r: "searchScopes p cred scopes = pre @ Output obj # post"
  proof -
    from searchScopes_End [OF assms, of cred scopes]
    have "endsAtMatch (pre @ Output obj # post)"
      using r outputsOf_nil_no_Output [of "pre @ Output obj # post" obj] by auto
    then obtain pre' obj' where eq: "pre @ Output obj # post = pre' @ [Output obj']"
      and silent: "outputsOf pre' = []"
      unfolding endsAtMatch_def by blast
    show ?thesis
    proof (cases post rule: rev_cases)
      case Nil
      with eq have "pre = pre'" by simp
      with silent Nil show ?thesis by simp
    next
      case (snoc post' e)
      with eq have "pre' = pre @ Output obj # post'" by simp
      with silent show ?thesis by (simp add: outputsOf_append)
    qed
  qed
  have step: "queue' = [] \<and> shouldBreak'"
    if "enumerateItems p targetScope dirPath items queue shouldBreak =
          (events, queue', shouldBreak')" and "outputsOf events \<noteq> []"
    using enumerateItems_End [OF assms that(1)] that(2) by auto
  from run step show ?thesis by blast
qed

theorem End_stops_at_match_witness:
  "MatchBehavior (searchFor End) = End \<and>
   searchScopes (searchFor End) testCred [liveScope, snapshot5] =
     endTrace @ Output (found None ''/A/x'') # [] \<and>
   outputsOf endTrace = []"
proof -
  have m: "MatchBehavior (searchFor End) = End"
    by (simp add: searchFor_def)
  have r: "searchScopes (searchFor End) testCred [liveScope, snapshot5] =
      endTrace @ Output (found None ''/A/x'') # []"
    by (simp add: run_simps fixture_defs endTrace_def)
  from End_stops_at_match [OF m, where cred = testCred and scopes = "[liveScope, snapshot5]"
      and pre = endTrace and obj = "found None ''/A/x''" and post = "[]"] m r
  show ?thesis by simp
qed

subsection \<open>\<open>ScopeEnd\<close>\<close>

lemma searchScopes_skip:
  assumes "MatchBehavior p = ScopeEnd" and "\<forall>x\<in>set pre. scopeMatches p x = []"
  shows "outputsOf (searchScopes p cred (pre @ rest)) = outputsOf (searchScopes p cred rest) \<and>
         scopesStarted (searchScopes p cred (pre @ rest)) =
           map ShareClientUri pre @ scopesStarted (searchScopes p cred rest)"
  using assms(2)
proof (induction pre)
  case Nil
  then show ?case by simp
next
  case (Cons s pre)
  have ne: "MatchBehavior p \<noteq> End" using assms(1) by simp
  have none: "outputsOf (fst (processQueue p s cred [(''/'', Root s)] False)) = []"
    using root_outputs [OF ne, of s cred False] Cons.prems by simp
  then have "\<not> snd (processQueue p s cred [(''/'', Root s)] False)"
    using processQueue_shouldBreak [OF assms(1), of s cred "[(''/'', Root s)]" False] by simp
  then show ?case
    using Cons none
    by (simp add: searchScopes_step outputsOf_append scopesStarted_append processQueue_scopesStarted
        del: searchScopes.simps)
qed

text \<open>
  C4. Under \<open>ScopeEnd\<close>, when the scopes before \<open>s\<close> hold no match and \<open>s\<close> holds one, the
  outputs of the run are the matches anywhere in \<open>s\<close>, each once, and the scopes
  started are those up to \<open>s\<close>: none after it.
\<close>

theorem ScopeEnd_finishes_scope:
  assumes "MatchBehavior p = ScopeEnd"
    and "\<forall>x\<in>set pre. scopeMatches p x = []"
    and "scopeMatches p s \<noteq> []"
  shows "mset (outputsOf (searchScopes p cred (pre @ s # post))) = mset (scopeMatches p s) \<and>
         scopesStarted (searchScopes p cred (pre @ s # post)) = map ShareClientUri (pre @ [s])"
proof -
  have ne: "MatchBehavior p \<noteq> End" using assms(1) by simp
  have out: "mset (outputsOf (fst (processQueue p s cred [(''/'', Root s)] False))) =
      mset (scopeMatches p s)"
    by (rule root_outputs [OF ne])
  then have "outputsOf (fst (processQueue p s cred [(''/'', Root s)] False)) \<noteq> []"
    using assms(3) by (metis mset_zero_iff)
  then have brk: "snd (processQueue p s cred [(''/'', Root s)] False)"
    using processQueue_shouldBreak [OF assms(1), of s cred "[(''/'', Root s)]" False] by simp
  have here: "outputsOf (searchScopes p cred (s # post)) =
        outputsOf (fst (processQueue p s cred [(''/'', Root s)] False)) \<and>
      scopesStarted (searchScopes p cred (s # post)) = [ShareClientUri s]"
    using brk
    by (simp add: searchScopes_step outputsOf_append scopesStarted_append processQueue_scopesStarted
        del: searchScopes.simps)
  show ?thesis
    using searchScopes_skip [OF assms(1) assms(2), of cred "s # post"] here out by simp
qed

theorem ScopeEnd_finishes_scope_witness:
  "MatchBehavior (searchFor ScopeEnd) = ScopeEnd \<and>
   scopeMatches (searchFor ScopeEnd) emptyLive = [] \<and>
   scopeMatches (searchFor ScopeEnd) snapshot5 =
     [found (Some 5) ''/A/x'', found (Some 5) ''/A/s/x'', found (Some 5) ''/B/x''] \<and>
   scopeMatches (searchFor ScopeEnd) snapshot3 = [found (Some 3) ''/x''] \<and>
   mset (outputsOf (searchScopes (searchFor ScopeEnd) testCred [emptyLive, snapshot5, snapshot3])) =
     mset [found (Some 5) ''/A/x'', found (Some 5) ''/A/s/x'', found (Some 5) ''/B/x''] \<and>
   scopesStarted (searchScopes (searchFor ScopeEnd) testCred [emptyLive, snapshot5, snapshot3]) =
     [ShareClientUri emptyLive, ShareClientUri snapshot5]"
proof -
  have m: "MatchBehavior (searchFor ScopeEnd) = ScopeEnd"
    by (simp add: searchFor_def)
  have a: "\<forall>x\<in>set [emptyLive]. scopeMatches (searchFor ScopeEnd) x = []"
    by (simp add: scopeMatches_def fixture_defs psEq_examples)
  have b: "scopeMatches (searchFor ScopeEnd) snapshot5 =
     [found (Some 5) ''/A/x'', found (Some 5) ''/A/s/x'', found (Some 5) ''/B/x'']"
    by (simp add: scopeMatches_def fixture_defs psEq_examples matchObject_def)
  have c: "scopeMatches (searchFor ScopeEnd) snapshot3 = [found (Some 3) ''/x'']"
    by (simp add: scopeMatches_def fixture_defs psEq_examples matchObject_def)
  have b': "scopeMatches (searchFor ScopeEnd) snapshot5 \<noteq> []"
    by (simp add: b)
  from ScopeEnd_finishes_scope [OF m a b', of testCred "[snapshot3]"] m a b c
  show ?thesis by simp
qed

subsection \<open>Enqueueing directories\<close>

text \<open>
  Under \<open>End\<close> a directory whose name matches is not enqueued: the loop is left before
  the enqueueing, and the match nested in it is not found.
\<close>

theorem End_leaves_matched_directory:
  "IsDirectory (directory ''x'' [fileItem ''x'']) \<and>
   enumerateItems (searchFor End) liveScope ''/'' [directory ''x'' [fileItem ''x'']] [] False =
     ([ItemSeen ''/x'', Output (found None ''/x'')], [], True) \<and>
   outputsOf (searchScopes (searchFor End) testCred
     [scopeOf None [] [directory ''x'' [fileItem ''x'']]]) = [found None ''/x''] \<and>
   scopeMatches (searchFor End) (scopeOf None [] [directory ''x'' [fileItem ''x'']]) =
     [found None ''/x'', found None ''/x/x'']"
  by (simp add: run_simps fixture_defs scopeMatches_def)

text \<open>
  C9. A directory child is enqueued with a trailing separator whether or not
  its name matches, unless the behaviour is \<open>End\<close> and a match stands at or before it in
  the listing. Unless the behaviour is \<open>End\<close>, it is in the queue when the listing is
  done and is listed later.
\<close>

theorem directory_enqueued:
  assumes "enumerateItems p targetScope dirPath (before @ dirItem # after) queue shouldBreak =
             (events, queue', shouldBreak')"
    and "IsDirectory dirItem"
    and "MatchBehavior p = End \<longrightarrow> \<not> list_ex (isMatch p) (before @ [dirItem])"
  shows "Enqueued (dirPath @ ItemName dirItem @ ''/'') \<in> set events \<and>
         (MatchBehavior p \<noteq> End \<longrightarrow>
            (dirPath @ ItemName dirItem @ ''/'', Listing dirItem) \<in> set queue' \<and>
            DirectoryListed (dirPath @ ItemName dirItem @ ''/'')
              (appendPath (ShareClientUri targetScope) (dirPath @ ItemName dirItem @ ''/'')) cred
              \<in> set (fst (processQueue p targetScope cred queue' shouldBreak')))"
proof -
  have "MatchBehavior p = End \<longrightarrow> \<not> list_ex (isMatch p) before"
    using assms(3) by auto
  from enumerateItems_prefix [OF assms(1) this] obtain ev sb where
    ev: "events = concat (map (seenEvents p targetScope dirPath) before) @ ev"
    and r: "enumerateItems p targetScope dirPath (dirItem # after)
              (queue @ subdirectories dirPath before) sb = (ev, queue', shouldBreak')"
    by blast
  have notEnd: "\<not> (isMatch p dirItem \<and> MatchBehavior p = End)"
    using assms(3) by auto
  have "Enqueued (dirPath @ ItemName dirItem @ ''/'') \<in> set ev"
    using r notEnd assms(2)
    by (auto simp: Let_def isMatch_def enqueueEvents_def split: if_splits prod.splits)
  then have first: "Enqueued (dirPath @ ItemName dirItem @ ''/'') \<in> set events"
    by (simp add: ev)
  have second: "(dirPath @ ItemName dirItem @ ''/'', Listing dirItem) \<in> set queue' \<and>
      DirectoryListed (dirPath @ ItemName dirItem @ ''/'')
        (appendPath (ShareClientUri targetScope) (dirPath @ ItemName dirItem @ ''/'')) cred
        \<in> set (fst (processQueue p targetScope cred queue' shouldBreak'))"
    if ne: "MatchBehavior p \<noteq> End"
  proof -
    have q: "queue' = queue @ subdirectories dirPath (before @ dirItem # after)"
      using assms(1) enumerateItems_unless_End [OF ne] by simp
    then have inq: "(dirPath @ ItemName dirItem @ ''/'', Listing dirItem) \<in> set queue'"
      using assms(2) by (auto simp: subdirectories_def)
    then have "DirectoryListed (dirPath @ ItemName dirItem @ ''/'')
        (appendPath (ShareClientUri targetScope) (dirPath @ ItemName dirItem @ ''/'')) cred
        \<in> set (concat (map (directoryEvents p targetScope cred) queue'))"
      by (force simp: directoryEvents_def)
    with inq show ?thesis
      by (simp add: processQueue_set [OF ne])
  qed
  from first second show ?thesis by blast
qed

theorem directory_enqueued_witness:
  "IsDirectory (directory ''x'' [fileItem ''x'']) \<and>
   enumerateItems (searchFor ScopeEnd) liveScope ''/''
     ([fileItem ''y''] @ directory ''x'' [fileItem ''x''] # []) [] False =
     ([ItemSeen ''/y'', ItemSeen ''/x'', Output (found None ''/x''), Enqueued ''/x/''],
      [(''/x/'', [fileItem ''x''])], True) \<and>
   Enqueued ''/x/'' \<in>
     set [ItemSeen ''/y'', ItemSeen ''/x'', Output (found None ''/x''), Enqueued ''/x/''] \<and>
   DirectoryListed ''/x/''
     (Uri ''https://testsa.file.core.windows.net'' ''/testshare/x/'' []) testCred \<in>
     set (fst (processQueue (searchFor ScopeEnd) liveScope testCred
       [(''/x/'', [fileItem ''x''])] True))"
proof -
  have d: "IsDirectory (directory ''x'' [fileItem ''x''])"
    by (simp add: directory_def)
  have e: "enumerateItems (searchFor ScopeEnd) liveScope ''/''
     ([fileItem ''y''] @ directory ''x'' [fileItem ''x''] # []) [] False =
     ([ItemSeen ''/y'', ItemSeen ''/x'', Output (found None ''/x''), Enqueued ''/x/''],
      [(''/x/'', [fileItem ''x''])], True)"
    by (simp add: run_simps fixture_defs)
  have n: "MatchBehavior (searchFor ScopeEnd) = End \<longrightarrow>
      \<not> list_ex (isMatch (searchFor ScopeEnd)) ([fileItem ''y''] @ [directory ''x'' [fileItem ''x'']])"
    by (simp add: searchFor_def)
  from directory_enqueued [OF e d n, of testCred] d e show ?thesis
    by (simp add: fixture_defs appendPath_def)
qed

subsection \<open>Paths\<close>

lemma noDoubleSlash_append:
  "noDoubleSlash (xs @ ys) =
     (noDoubleSlash xs \<and> noDoubleSlash ys \<and>
      (xs = [] \<or> ys = [] \<or> last xs \<noteq> CHR ''/'' \<or> hd ys \<noteq> CHR ''/''))"
proof (induction xs rule: noDoubleSlash.induct)
  case (1 a b rest)
  then show ?case by auto
next
  case (2 a)
  then show ?case by (cases ys) auto
next
  case 3
  then show ?case by simp
qed

lemma noDoubleSlash_name: "CHR ''/'' \<notin> set n \<Longrightarrow> noDoubleSlash n"
  by (induction n rule: noDoubleSlash.induct) auto

lemma rooted_child:
  assumes "directoryPath dirPath" and "validName n"
  shows "rooted (dirPath @ n)" and "directoryPath (dirPath @ n @ ''/'')"
proof -
  from assms(1) have d: "dirPath \<noteq> []" "take 1 dirPath = ''/''" "noDoubleSlash dirPath"
    by (auto simp: directoryPath_def rooted_def)
  from assms(2) have n: "n \<noteq> []" "hd n \<noteq> CHR ''/''" "last n \<noteq> CHR ''/''" "noDoubleSlash n"
    by (auto simp: validName_def noDoubleSlash_name dest: hd_in_set last_in_set)
  have dn: "noDoubleSlash (dirPath @ n)"
    using d n by (simp add: noDoubleSlash_append)
  have t: "take 1 (dirPath @ xs) = ''/''" for xs
    using d by (cases dirPath) simp_all
  show "rooted (dirPath @ n)"
    using dn t by (simp add: rooted_def)
  have "noDoubleSlash ((dirPath @ n) @ ''/'')"
    unfolding noDoubleSlash_append [of "dirPath @ n"]
    using dn n by simp
  then show "directoryPath (dirPath @ n @ ''/'')"
    using t [of "n @ ''/''"] by (simp add: directoryPath_def rooted_def)
qed

lemma itemEvents_clean:
  "directoryPath dirPath \<Longrightarrow> wellNamed dirItem \<Longrightarrow>
   \<forall>e\<in>set (itemEvents p targetScope cred dirPath dirItem). eventClean e"
proof (induction p targetScope cred dirPath dirItem rule: itemEvents.induct)
  case (1 p targetScope cred dirPath n d items)
  have v: "validName n" and w: "\<forall>i\<in>set items. wellNamed i"
    using 1(3) by (simp_all add: list_all_iff)
  note rc = rooted_child [OF 1(2) v]
  have "\<forall>i\<in>set items. \<forall>e\<in>set (itemEvents p targetScope cred (dirPath @ n @ ''/'') i). eventClean e"
    if d
    using 1(1) [OF that _ rc(2)] w by blast
  then show ?case
    using rc by (auto simp: matchObject_def)
qed

text \<open>
  C10. In a traversal seeded at the root of a share whose names are well-formed, every
  path enqueued, listed, enumerated or written out starts with exactly one slash and
  has no double slash; every enumerated path is the path of an entry of the share
  (\<open>/foo\<close> for \<open>foo\<close> in the root, \<open>/foo/<name>\<close> for its entries); and unless the behaviour
  is \<open>End\<close> every entry is enumerated once.
\<close>

theorem traversal_paths:
  assumes "list_all wellNamed (Root targetScope)"
    and "events = fst (processQueue p targetScope cred [(''/'', Root targetScope)] False)"
  shows "(\<forall>e\<in>set events. eventClean e) \<and>
         set (seenPaths events) \<subseteq> set (sharePaths targetScope) \<and>
         (MatchBehavior p \<noteq> End \<longrightarrow> mset (seenPaths events) = mset (sharePaths targetScope))"
proof -
  let ?all = "directoryEvents p targetScope cred (''/'', Root targetScope)"
  have sub: "set events \<subseteq> set ?all"
    using processQueue_subset [of p targetScope cred "[(''/'', Root targetScope)]" False]
    by (simp add: assms(2))
  have root: "directoryPath ''/''"
    by (simp add: directoryPath_def rooted_def)
  have "\<forall>e\<in>set ?all. eventClean e"
    using itemEvents_clean [OF root] assms(1) root
    by (auto simp: directoryEvents_def list_all_iff)
  with sub have clean: "\<forall>e\<in>set events. eventClean e" by blast
  have paths: "seenPaths ?all = sharePaths targetScope"
    using seenPaths_itemEvents [of p targetScope cred "[]"]
    by (simp add: directoryEvents_def sharePaths_def seenPaths_concat comp_def)
  have "set (seenPaths events) \<subseteq> set (seenPaths ?all)"
    using sub by (auto simp: seenPaths_set)
  then have within: "set (seenPaths events) \<subseteq> set (sharePaths targetScope)"
    by (simp add: paths)
  have "mset (seenPaths events) = mset (sharePaths targetScope)" if "MatchBehavior p \<noteq> End"
  proof -
    have "mset events = mset ?all"
      using processQueue_mset [OF that, of targetScope cred "[(''/'', Root targetScope)]" False]
      by (simp add: assms(2))
    then have "mset (seenPaths events) = mset (seenPaths ?all)"
      by (simp add: seenPaths_mset)
    then show ?thesis by (simp add: paths)
  qed
  with clean within show ?thesis by blast
qed

theorem traversal_paths_witness:
  "list_all wellNamed (Root liveScope) \<and>
   sharePaths liveScope = [''/A'', ''/A/x'', ''/A/s'', ''/A/s/x'', ''/B'', ''/B/x''] \<and>
   seenPaths (fst (processQueue (searchFor Continue) liveScope testCred
     [(''/'', Root liveScope)] False)) =
     [''/A'', ''/B'', ''/A/x'', ''/A/s'', ''/B/x'', ''/A/s/x''] \<and>
   mset (seenPaths (fst (processQueue (searchFor Continue) liveScope testCred
     [(''/'', Root liveScope)] False))) = mset (sharePaths liveScope) \<and>
   list_all eventClean (fst (processQueue (searchFor Continue) liveScope testCred
     [(''/'', Root liveScope)] False))"
proof -
  have w: "list_all wellNamed (Root liveScope)"
    by (simp add: fixture_defs validName_def)
  have s: "sharePaths liveScope = [''/A'', ''/A/x'', ''/A/s'', ''/A/s/x'', ''/B'', ''/B/x'']"
    by (simp add: sharePaths_def fixture_defs)
  have r: "seenPaths (fst (processQueue (searchFor Continue) liveScope testCred
     [(''/'', Root liveScope)] False)) =
     [''/A'', ''/B'', ''/A/x'', ''/A/s'', ''/B/x'', ''/A/s/x'']"
    by (simp add: run_simps fixture_defs)
  have m: "MatchBehavior (searchFor Continue) \<noteq> End"
    by (simp add: searchFor_def)
  from traversal_paths [OF w refl, of "searchFor Continue" testCred] m w s r
  show ?thesis by (simp add: list_all_iff)
qed

end
